theory Spec2Isabelle
  imports Complex_Main "HOL-Library.AList" "HOL-Library.Multiset"
begin

section \<open>JavaScript objects and the mail data model (src/lib/jmap/types.ts)\<close>

text \<open>
  A JavaScript object used as a dictionary (\<^verbatim>\<open>Record<string, T>\<close>) and a
  \<^verbatim>\<open>Map<string, T>\<close> are association lists in enumeration order (the order of
  \<^verbatim>\<open>Object.keys\<close>, which for the non-numeric keys used here is insertion order).
  Reading a property is \<open>map_of\<close>; assigning \<^verbatim>\<open>o[k] = v\<close> is \<open>AList.update\<close>:
  it overwrites in place when the key exists and appends otherwise.
\<close>

type_synonym 'v js_object = "(string \<times> 'v) list"

definition obj_get :: "'v js_object \<Rightarrow> string \<Rightarrow> 'v option" where
  "obj_get obj k = map_of obj k"

definition obj_set :: "string \<Rightarrow> 'v \<Rightarrow> 'v js_object \<Rightarrow> 'v js_object" where
  "obj_set k v obj = AList.update k v obj"

definition obj_keys :: "'v js_object \<Rightarrow> string list" where
  "obj_keys obj = map fst obj"

definition obj_values :: "'v js_object \<Rightarrow> 'v list" where
  "obj_values obj = map snd obj"

definition obj_has :: "'v js_object \<Rightarrow> string \<Rightarrow> bool" where
  "obj_has obj k = (k \<in> set (map fst obj))"

text \<open>
  \<^verbatim>\<open>EmailAddress\<close> and \<^verbatim>\<open>Email\<close>.  The optional properties the modelled
  functions read are \<open>option\<close>s.  \<^verbatim>\<open>mailboxIds\<close> and \<^verbatim>\<open>keywords\<close> are declared
  mandatory, but the store guards every read (\<^verbatim>\<open>email.keywords?.$seen\<close>,
  \<^verbatim>\<open>if (email.mailboxIds)\<close>), so they are \<open>option\<close>s as well.
  \<open>receivedAt\<close> holds \<^verbatim>\<open>new Date(email.receivedAt).getTime()\<close>, the only way the
  date string is ever read; the date strings are taken to be valid dates (JMAP's
  \<^verbatim>\<open>UTCDate\<close>), so that the value is a number and not NaN.  The properties no
  modelled function reads (size, to, cc, subject, preview, bodies, ...) are left out:
  they are carried along unchanged by every operation.
\<close>

record email_address =
  addr_name :: "string option"
  addr_email :: string

record email =
  email_id :: string
  threadId :: string
  mailboxIds :: "bool js_object option"
  email_keywords :: "bool js_object option"
  receivedAt :: int
  email_from :: "email_address list option"
  hasAttachment :: bool

text \<open>\<^verbatim>\<open>email.keywords?.$seen === true\<close> and, as the values are booleans, the
  truthiness of \<^verbatim>\<open>email.keywords?.$seen\<close>.\<close>

definition keyword_set :: "string \<Rightarrow> email \<Rightarrow> bool" where
  "keyword_set k e = (case email_keywords e of None \<Rightarrow> False | Some kw \<Rightarrow> obj_get kw k = Some True)"

definition is_seen :: "email \<Rightarrow> bool" where
  "is_seen e = keyword_set ''$seen'' e"

text \<open>Reading a property of an object finds its own property or else the property
  of that name that every object inherits from \<^verbatim>\<open>Object.prototype\<close>.  These are the
  inherited names; their values are functions, and for \<^verbatim>\<open>__proto__\<close> the prototype
  object, all of them truthy.\<close>

definition Object_prototype_keys :: "string list" where
  "Object_prototype_keys =
     [''constructor'', ''__defineGetter__'', ''__defineSetter__'', ''hasOwnProperty'',
      ''__lookupGetter__'', ''__lookupSetter__'', ''isPrototypeOf'', ''propertyIsEnumerable'',
      ''toString'', ''valueOf'', ''__proto__'', ''toLocaleString'']"

text \<open>The truthiness of \<^verbatim>\<open>email.mailboxIds[mailboxId]\<close>, read under a guard
  \<^verbatim>\<open>email.mailboxIds\<close> (an object is truthy even when it is empty): the value of the
  own property of that name, and without one the truthiness of the inherited member,
  so that a mailbox whose id is one of the inherited names passes the test for every
  email that has a \<^verbatim>\<open>mailboxIds\<close>.\<close>

definition in_mailbox :: "email \<Rightarrow> string \<Rightarrow> bool" where
  "in_mailbox e mb =
     (case mailboxIds e of
        None \<Rightarrow> False
      | Some ms \<Rightarrow>
          (case obj_get ms mb of
             Some v \<Rightarrow> v
           | None \<Rightarrow> mb \<in> set Object_prototype_keys))"

section \<open>Thread grouping (src/lib/thread-utils.ts)\<close>

record thread_group =
  tg_threadId :: string
  tg_emails :: "email list"
  latestEmail :: "email option"
  participantNames :: "string list"
  hasUnread :: bool
  hasStarred :: bool
  tg_hasAttachment :: bool
  emailCount :: nat

text \<open>\<^verbatim>\<open>String.prototype.toLowerCase\<close> on the ASCII letters (a \<open>string\<close> is a list of
  bytes; the lower-casing of letters beyond ASCII is not modelled).\<close>

definition toLowerCase :: "string \<Rightarrow> string" where
  "toLowerCase s =
     map (\<lambda>c. let n = (of_char c :: nat) in if 65 \<le> n \<and> n \<le> 90 then char_of (n + 32) else c) s"

text \<open>\<^verbatim>\<open>sender.name || sender.email.split('@')[0]\<close>: an empty name is falsy.\<close>

definition senderName :: "email_address \<Rightarrow> string" where
  "senderName sender =
     (case addr_name sender of
        Some n \<Rightarrow> if n \<noteq> [] then n else takeWhile (\<lambda>c. c \<noteq> CHR ''@'') (addr_email sender)
      | None \<Rightarrow> takeWhile (\<lambda>c. c \<noteq> CHR ''@'') (addr_email sender))"

text \<open>The loop of \<^verbatim>\<open>getThreadParticipants\<close>: \<open>seen\<close> is the set of lower-cased sender
  addresses, \<open>names\<close> the result so far; the \<^verbatim>\<open>break\<close> is tested after every
  email.\<close>

fun participants_loop :: "int \<Rightarrow> string list \<Rightarrow> string list \<Rightarrow> email list \<Rightarrow> string list" where
  "participants_loop maxNames seen names [] = names"
| "participants_loop maxNames seen names (e # es) =
     (let (seen', names') =
        (case email_from e of
           Some (sender # _) \<Rightarrow>
             (let key = toLowerCase (addr_email sender)
              in if key \<notin> set seen then (key # seen, names @ [senderName sender])
                 else (seen, names))
         | _ \<Rightarrow> (seen, names))
      in if maxNames \<le> int (length names') then names'
         else participants_loop maxNames seen' names' es)"

definition getThreadParticipants :: "email list \<Rightarrow> int \<Rightarrow> string list" where
  "getThreadParticipants es maxNames = participants_loop maxNames [] [] es"

text \<open>\<^verbatim>\<open>[...xs].sort((a, b) => new Date(b.receivedAt).getTime() - new Date(a.receivedAt).getTime())\<close>:
  \<^verbatim>\<open>Array.prototype.sort\<close> is stable, and so is \<open>sort_key\<close>.\<close>

definition sort_newest_first :: "email list \<Rightarrow> email list" where
  "sort_newest_first es = sort_key (\<lambda>e. - receivedAt e) es"

text \<open>The object literal both \<^verbatim>\<open>groupEmailsByThread\<close> and \<^verbatim>\<open>mergeThreadEmails\<close> build
  from a thread id and the sorted emails; \<^verbatim>\<open>sortedEmails[0]\<close> is \<^verbatim>\<open>undefined\<close>
  (\<open>None\<close>) on an empty array.\<close>

definition make_group :: "string \<Rightarrow> email list \<Rightarrow> thread_group" where
  "make_group tid sortedEmails =
     \<lparr> tg_threadId = tid,
       tg_emails = sortedEmails,
       latestEmail = (case sortedEmails of [] \<Rightarrow> None | e # _ \<Rightarrow> Some e),
       participantNames = getThreadParticipants sortedEmails 4,
       hasUnread = list_ex (\<lambda>e. \<not> is_seen e) sortedEmails,
       hasStarred = list_ex (keyword_set ''$flagged'') sortedEmails,
       tg_hasAttachment = list_ex hasAttachment sortedEmails,
       emailCount = length sortedEmails \<rparr>"

text \<open>One iteration of the first loop of \<^verbatim>\<open>groupEmailsByThread\<close>:
  \<^verbatim>\<open>if (!threadMap.has(threadId)) threadMap.set(threadId, []);
  threadMap.get(threadId)!.push(email)\<close>.\<close>

definition threadMap_push :: "email list js_object \<Rightarrow> email \<Rightarrow> email list js_object" where
  "threadMap_push threadMap e =
     (let tid = threadId e;
          tm = (if \<not> obj_has threadMap tid then obj_set tid [] threadMap else threadMap)
      in case obj_get tm tid of
           Some es \<Rightarrow> obj_set tid (es @ [e]) tm
         | None \<Rightarrow> tm)"

definition groupEmailsByThread :: "email list \<Rightarrow> thread_group list" where
  "groupEmailsByThread emails =
     (if emails = [] then []
      else map (\<lambda>(tid, threadEmails). make_group tid (sort_newest_first threadEmails))
               (foldl threadMap_push [] emails))"

text \<open>\<^verbatim>\<open>mergeThreadEmails\<close>: the first loop sets every existing email under its id
  (a later duplicate overwrites in place), the second adds the fetched emails whose id
  is not in the map yet.\<close>

definition emailMap_set :: "email js_object \<Rightarrow> email \<Rightarrow> email js_object" where
  "emailMap_set emailMap e = obj_set (email_id e) e emailMap"

definition emailMap_add_new :: "email js_object \<Rightarrow> email \<Rightarrow> email js_object" where
  "emailMap_add_new emailMap e =
     (if \<not> obj_has emailMap (email_id e) then obj_set (email_id e) e emailMap else emailMap)"

definition merged_emailMap :: "email list \<Rightarrow> email list \<Rightarrow> email js_object" where
  "merged_emailMap existing fetched =
     foldl emailMap_add_new (foldl emailMap_set [] existing) fetched"

definition mergeThreadEmails :: "thread_group \<Rightarrow> email list \<Rightarrow> thread_group" where
  "mergeThreadEmails existingGroup fetchedEmails =
     make_group (tg_threadId existingGroup)
       (sort_newest_first (obj_values (merged_emailMap (tg_emails existingGroup) fetchedEmails)))"

text \<open>The invariant of the id-keyed map of \<^verbatim>\<open>mergeThreadEmails\<close>: the keys are
  distinct and every entry is stored under its own id.\<close>

definition keyed_by_id :: "email js_object \<Rightarrow> bool" where
  "keyed_by_id m = (distinct (map fst m) \<and> list_all (\<lambda>p. fst p = email_id (snd p)) m)"


section \<open>The Protocol Client (JMAPClient, src/unnamed/part_015)\<close>

subsection \<open>Mailboxes, requests and responses\<close>

text \<open>\<^verbatim>\<open>Mailbox\<close> of types.ts.  \<^verbatim>\<open>isShared\<close> is optional and only ever tested for
  truthiness: \<open>is_shared\<close>.\<close>

record mailbox =
  mailbox_id :: string
  originalId :: "string option"
  mailbox_name :: string
  parentId :: "string option"
  role :: "string option"
  sortOrder :: int
  totalEmails :: int
  unreadEmails :: int
  totalThreads :: int
  unreadThreads :: int
  myRights :: "bool js_object"
  isSubscribed :: bool
  accountId :: "string option"
  accountName :: "string option"
  isShared :: "bool option"

definition is_shared :: "mailbox \<Rightarrow> bool" where
  "is_shared mb = (isShared mb = Some True)"

text \<open>\<^verbatim>\<open>JMAPMailbox\<close>, a mailbox as the server sends it; \<open>None\<close> stands for a property
  that is absent or \<^verbatim>\<open>null\<close>.\<close>

record jmap_mailbox =
  raw_id :: string
  raw_name :: string
  raw_parentId :: "string option"
  raw_role :: "string option"
  raw_totalEmails :: "int option"
  raw_unreadEmails :: "int option"
  raw_totalThreads :: "int option"
  raw_unreadThreads :: "int option"
  raw_sortOrder :: "int option"
  raw_isSubscribed :: "bool option"
  raw_myRights :: "bool js_object option"

record jmap_account =
  account_name :: "string option"

record jmap_thread =
  thread_id :: string
  emailIds :: "string list option"

text \<open>An entry of a \<^verbatim>\<open>notCreated\<close> / \<^verbatim>\<open>notUpdated\<close> map.\<close>

record set_error =
  err_type :: "string option"
  err_description :: "string option"

text \<open>The result object of one method response (\<^verbatim>\<open>Record<string, any>\<close>): the
  properties the client reads, each absent (\<open>None\<close>) or present.  The \<^verbatim>\<open>list\<close>
  property is read at the type the calling method casts it to, so it is one field per
  type.  \<^verbatim>\<open>created\<close> maps a creation id to the \<^verbatim>\<open>id\<close> of the object created for
  it.\<close>

record jmap_result =
  mailbox_list :: "jmap_mailbox list option"
  email_list :: "email list option"
  thread_list :: "jmap_thread list option"
  res_total :: "int option"
  notCreated :: "set_error js_object option"
  notUpdated :: "set_error js_object option"
  created :: "string js_object option"

text \<open>\<^verbatim>\<open>JMAPResponse\<close>: the method responses as (name, result) pairs (the third
  component, the call id, is never read); \<open>None\<close> is a body without
  \<^verbatim>\<open>methodResponses\<close>.\<close>

record jmap_response =
  methodResponses :: "(string \<times> jmap_result) list option"

text \<open>The patch object of an \<^verbatim>\<open>Email/set\<close> update and the method calls the modelled
  methods put into a request, with the arguments they vary.\<close>

datatype patch =
    Keyword_path string bool
  | Keywords_object "bool js_object"
  | MailboxIds_object "bool js_object"

text \<open>The email object \<^verbatim>\<open>createDraft\<close> sends (\<^verbatim>\<open>EmailDraft\<close>, lines 908-919); the
  body is the value of the one body part, an attachment is blob id, type and name.\<close>

record email_draft =
  draft_from :: string
  draft_to :: "string list"
  draft_cc :: "string list option"
  draft_bcc :: "string list option"
  draft_subject :: string
  draft_keywords :: "bool js_object"
  draft_mailboxIds :: "bool js_object"
  draft_body :: string
  draft_attachments :: "(string \<times> string \<times> string) list option"

datatype method_call =
    Mailbox_get string
  | Email_query string "string option" int int
  | Email_get_resultOf string
  | Email_get string "string list" bool
  | Thread_get string "string list"
  | Email_set_update string "patch list js_object"
  | Email_set_destroy string "string list"
  | Email_set_create string string email_draft

text \<open>What \<^verbatim>\<open>fetch\<close> and the reading of the body come to: the promise rejects (a
  network failure), or there is a status with the body text, which for a 2xx status
  parses as JSON or does not.\<close>

datatype js_error = Error string

datatype http_reply =
    Rejected js_error
  | Not_ok nat string
  | Invalid_json
  | Ok_json jmap_response

type_synonym network = "method_call list \<Rightarrow> http_reply"

record jmap_client =
  apiUrl :: string
  client_accountId :: string
  username :: string
  accounts :: "jmap_account js_object"

text \<open>Helpers for JavaScript idioms: \<^verbatim>\<open>xs?.[i]\<close>, the truthiness of an optional
  string, \<^verbatim>\<open>a || b\<close> on strings, and the decimal digits of a status code.\<close>

definition nth_opt :: "'a list \<Rightarrow> nat \<Rightarrow> 'a option" where
  "nth_opt xs i = (if i < length xs then Some (xs ! i) else None)"

definition truthy_str :: "string option \<Rightarrow> string option" where
  "truthy_str s = (case s of Some t \<Rightarrow> if t \<noteq> [] then Some t else None | None \<Rightarrow> None)"

definition or_else :: "string option \<Rightarrow> string \<Rightarrow> string" where
  "or_else s d = (case truthy_str s of Some t \<Rightarrow> t | None \<Rightarrow> d)"

fun decimal :: "nat \<Rightarrow> string" where
  "decimal n = (if n < 10 then [char_of (48 + n)] else decimal (n div 10) @ [char_of (48 + n mod 10)])"

declare decimal.simps [simp del]

text \<open>\<^verbatim>\<open>response.methodResponses?.[i]?.[0]\<close> and \<^verbatim>\<open>response.methodResponses?.[i]?.[1]\<close>.\<close>

definition response_name :: "jmap_response \<Rightarrow> nat \<Rightarrow> string option" where
  "response_name r i =
     (case methodResponses r of None \<Rightarrow> None | Some ms \<Rightarrow> map_option fst (nth_opt ms i))"

definition response_result :: "jmap_response \<Rightarrow> nat \<Rightarrow> jmap_result option" where
  "response_result r i =
     (case methodResponses r of None \<Rightarrow> None | Some ms \<Rightarrow> map_option snd (nth_opt ms i))"

text \<open>\<^verbatim>\<open>request\<close> (lines 201-236): throws when not connected, on a rejected fetch, on
  a status that is not ok and on a body that is not JSON.\<close>

definition request :: "jmap_client \<Rightarrow> network \<Rightarrow> method_call list \<Rightarrow> js_error + jmap_response" where
  "request c net methodCalls =
     (if apiUrl c = [] then Inl (Error ''Not connected. Call connect() first.'')
      else case net methodCalls of
             Rejected e \<Rightarrow> Inl e
           | Not_ok status responseText \<Rightarrow>
               Inl (Error (''Request failed: '' @ decimal status @ '' - '' @ take 200 responseText))
           | Invalid_json \<Rightarrow> Inl (Error ''Invalid JSON response from server'')
           | Ok_json data \<Rightarrow> Inr data)"

subsection \<open>Listing mailboxes\<close>

definition default_rights :: "bool js_object" where
  "default_rights =
     [(''mayReadItems'', True), (''mayAddItems'', True), (''mayRemoveItems'', True),
      (''maySetSeen'', True), (''maySetKeywords'', True), (''mayCreateChild'', True),
      (''mayRename'', True), (''mayDelete'', True), (''maySubmit'', True)]"

definition or_zero :: "int option \<Rightarrow> int" where
  "or_zero n = (case n of Some v \<Rightarrow> v | None \<Rightarrow> 0)"

text \<open>The object literal of \<^verbatim>\<open>getMailboxes\<close> (lines 277-306), for the primary account.\<close>

definition primary_mailbox :: "jmap_client \<Rightarrow> jmap_mailbox \<Rightarrow> mailbox" where
  "primary_mailbox c mb =
     \<lparr> mailbox_id = raw_id mb,
       originalId = None,
       mailbox_name = raw_name mb,
       parentId = truthy_str (raw_parentId mb),
       role = truthy_str (raw_role mb),
       sortOrder = or_zero (raw_sortOrder mb),
       totalEmails = or_zero (raw_totalEmails mb),
       unreadEmails = or_zero (raw_unreadEmails mb),
       totalThreads = or_zero (raw_totalThreads mb),
       unreadThreads = or_zero (raw_unreadThreads mb),
       myRights = (case raw_myRights mb of Some r \<Rightarrow> r | None \<Rightarrow> default_rights),
       isSubscribed = (case raw_isSubscribed mb of Some b \<Rightarrow> b | None \<Rightarrow> True),
       accountId = Some (client_accountId c),
       accountName =
         Some (or_else (case obj_get (accounts c) (client_accountId c) of
                          Some a \<Rightarrow> account_name a | None \<Rightarrow> None) (username c)),
       isShared = Some False \<rparr>"

definition fallback_inbox :: "jmap_client \<Rightarrow> mailbox" where
  "fallback_inbox c =
     \<lparr> mailbox_id = ''INBOX'', originalId = None, mailbox_name = ''Inbox'', parentId = None,
       role = Some ''inbox'', sortOrder = 0, totalEmails = 0, unreadEmails = 0,
       totalThreads = 0, unreadThreads = 0, myRights = default_rights, isSubscribed = True,
       accountId = Some (client_accountId c), accountName = Some (username c),
       isShared = Some False \<rparr>"

text \<open>\<^verbatim>\<open>getMailboxes\<close> (lines 265-342): every failure, the unexpected response format
  included, ends in the \<^verbatim>\<open>catch\<close> that returns the default inbox.\<close>

definition getMailboxes :: "jmap_client \<Rightarrow> network \<Rightarrow> mailbox list" where
  "getMailboxes c net =
     (case request c net [Mailbox_get (client_accountId c)] of
        Inl e \<Rightarrow> [fallback_inbox c]
      | Inr response \<Rightarrow>
          if response_name response 0 = Some ''Mailbox/get'' then
            (case response_result response 0 of
               Some res \<Rightarrow>
                 map (primary_mailbox c) (case mailbox_list res of Some l \<Rightarrow> l | None \<Rightarrow> [])
             | None \<Rightarrow> [fallback_inbox c])
          else [fallback_inbox c])"

text \<open>The template literal \<^verbatim>\<open>`${accountId}:${id}`\<close>.\<close>

definition namespaced :: "string \<Rightarrow> string \<Rightarrow> string" where
  "namespaced acc ident = acc @ '':'' @ ident"

text \<open>The object literal of \<^verbatim>\<open>getAllMailboxes\<close> (lines 372-401).\<close>

definition account_mailbox :: "jmap_client \<Rightarrow> string \<Rightarrow> jmap_mailbox \<Rightarrow> mailbox" where
  "account_mailbox c acc mb =
     (let isPrimary = (acc = client_accountId c);
          account = obj_get (accounts c) acc
      in \<lparr> mailbox_id = (if isPrimary then raw_id mb else namespaced acc (raw_id mb)),
           originalId = Some (raw_id mb),
           mailbox_name = raw_name mb,
           parentId =
             (case truthy_str (raw_parentId mb) of
                Some p \<Rightarrow> Some (if isPrimary then p else namespaced acc p)
              | None \<Rightarrow> None),
           role = truthy_str (raw_role mb),
           sortOrder = or_zero (raw_sortOrder mb),
           totalEmails = or_zero (raw_totalEmails mb),
           unreadEmails = or_zero (raw_unreadEmails mb),
           totalThreads = or_zero (raw_totalThreads mb),
           unreadThreads = or_zero (raw_unreadThreads mb),
           myRights = (case raw_myRights mb of Some r \<Rightarrow> r | None \<Rightarrow> default_rights),
           isSubscribed = (case raw_isSubscribed mb of Some b \<Rightarrow> b | None \<Rightarrow> True),
           accountId = Some acc,
           accountName =
             Some (or_else (case account of Some a \<Rightarrow> account_name a | None \<Rightarrow> None)
                     (if isPrimary then username c else acc)),
           isShared = Some (\<not> isPrimary) \<rparr>)"

text \<open>The raw mailboxes one iteration of the loop of \<^verbatim>\<open>getAllMailboxes\<close> gets for an
  account: none when the request throws (the inner \<^verbatim>\<open>catch\<close>) or the first response
  is not \<^verbatim>\<open>Mailbox/get\<close>.\<close>

definition account_raw_mailboxes :: "jmap_client \<Rightarrow> network \<Rightarrow> string \<Rightarrow> jmap_mailbox list" where
  "account_raw_mailboxes c net acc =
     (case request c net [Mailbox_get acc] of
        Inl e \<Rightarrow> []
      | Inr response \<Rightarrow>
          if response_name response 0 = Some ''Mailbox/get'' then
            (case response_result response 0 of
               Some res \<Rightarrow> (case mailbox_list res of Some l \<Rightarrow> l | None \<Rightarrow> [])
             | None \<Rightarrow> [])
          else [])"

text \<open>\<^verbatim>\<open>getAllMailboxes\<close> (lines 344-417).  Nothing in the outer \<^verbatim>\<open>try\<close> throws
  outside the inner one, so the outer \<^verbatim>\<open>catch\<close> is never entered.\<close>

definition getAllMailboxes :: "jmap_client \<Rightarrow> network \<Rightarrow> mailbox list" where
  "getAllMailboxes c net =
     (let accountIds = obj_keys (accounts c)
      in if accountIds = [] then getMailboxes c net
         else concat (map (\<lambda>acc. map (account_mailbox c acc) (account_raw_mailboxes c net acc))
                          accountIds))"

subsection \<open>Fetching emails\<close>

text \<open>The rewriting of \<^verbatim>\<open>email.mailboxIds\<close> that \<^verbatim>\<open>getEmails\<close> (lines 479-487),
  \<^verbatim>\<open>getEmail\<close> (lines 548-554) and \<^verbatim>\<open>getThreadEmails\<close> (lines 864-872) each spell
  out: a new object gets, for every key of the old one, the namespaced key with the old
  value.\<close>

definition namespace_mailboxIds :: "string \<Rightarrow> bool js_object \<Rightarrow> bool js_object" where
  "namespace_mailboxIds acc ids =
     foldl (\<lambda>namespacedMailboxIds mbId.
              case obj_get ids mbId of
                Some v \<Rightarrow> obj_set (namespaced acc mbId) v namespacedMailboxIds
              | None \<Rightarrow> namespacedMailboxIds)
           [] (obj_keys ids)"

definition namespace_email :: "string \<Rightarrow> email \<Rightarrow> email" where
  "namespace_email acc e =
     (case mailboxIds e of
        Some ids \<Rightarrow> e\<lparr>mailboxIds := Some (namespace_mailboxIds acc ids)\<rparr>
      | None \<Rightarrow> e)"

text \<open>\<^verbatim>\<open>accountId || this.accountId\<close> and \<^verbatim>\<open>accountId && accountId !== this.accountId\<close>
  for the optional parameter \<^verbatim>\<open>accountId\<close>.\<close>

definition targetAccountId :: "jmap_client \<Rightarrow> string option \<Rightarrow> string" where
  "targetAccountId c acc = or_else acc (client_accountId c)"

definition isSharedAccount :: "jmap_client \<Rightarrow> string option \<Rightarrow> bool" where
  "isSharedAccount c acc =
     (case truthy_str acc of Some a \<Rightarrow> a \<noteq> client_accountId c | None \<Rightarrow> False)"

record emails_page =
  page_emails :: "email list"
  hasMore :: bool
  page_total :: int

definition empty_page :: emails_page where
  "empty_page = \<lparr> page_emails = [], hasMore = False, page_total = 0 \<rparr>"

text \<open>\<^verbatim>\<open>getEmails\<close> (lines 419-498).  \<^verbatim>\<open>queryResponse?.total || 0\<close> is \<open>0\<close> for an
  absent total and for the total \<open>0\<close>.\<close>

definition getEmails ::
  "jmap_client \<Rightarrow> network \<Rightarrow> string option \<Rightarrow> string option \<Rightarrow> int \<Rightarrow> int \<Rightarrow> emails_page" where
  "getEmails c net mailboxId acc limit position =
     (let target = targetAccountId c acc;
          filter_inMailbox = truthy_str mailboxId
      in case request c net
                [Email_query target filter_inMailbox limit position, Email_get_resultOf target] of
           Inl e \<Rightarrow> empty_page
         | Inr response \<Rightarrow>
             (case response_result response 1 of
                Some getResponse \<Rightarrow>
                  if response_name response 1 = Some ''Email/get'' then
                    (let emails = (case email_list getResponse of Some l \<Rightarrow> l | None \<Rightarrow> []);
                         total = (case response_result response 0 of
                                    Some queryResponse \<Rightarrow> or_zero (res_total queryResponse)
                                  | None \<Rightarrow> 0);
                         more = (if 0 < total then position + int (length emails) < total
                                 else int (length emails) = limit);
                         emails' = (if isSharedAccount c acc
                                    then map (namespace_email (or_else acc [])) emails
                                    else emails)
                     in \<lparr> page_emails = emails', hasMore = more, page_total = total \<rparr>)
                  else empty_page
              | None \<Rightarrow> empty_page))"

text \<open>\<^verbatim>\<open>getEmail\<close> (lines 500-629).  The header parsing of lines 556-616 writes only the
  annotation properties that the record \<open>email\<close> leaves out; it is represented by its
  outcome \<open>headers_throw\<close>: when the dynamic import or a parser throws, the
  \<^verbatim>\<open>catch\<close> returns null.\<close>

definition getEmail ::
  "jmap_client \<Rightarrow> network \<Rightarrow> bool \<Rightarrow> string \<Rightarrow> string option \<Rightarrow> email option" where
  "getEmail c net headers_throw emailId acc =
     (case request c net [Email_get (targetAccountId c acc) [emailId] True] of
        Inl e \<Rightarrow> None
      | Inr response \<Rightarrow>
          if response_name response 0 = Some ''Email/get'' then
            (case response_result response 0 of
               Some res \<Rightarrow>
                 (case (case email_list res of Some l \<Rightarrow> l | None \<Rightarrow> []) of
                    [] \<Rightarrow> None
                  | e # _ \<Rightarrow>
                      if headers_throw then None
                      else Some (if isSharedAccount c acc then namespace_email (or_else acc []) e
                                 else e))
             | None \<Rightarrow> None)
          else None)"

text \<open>\<^verbatim>\<open>getThread\<close> (lines 803-824) and \<^verbatim>\<open>getThreadEmails\<close> (lines 826-886).\<close>

definition getThread :: "jmap_client \<Rightarrow> network \<Rightarrow> string \<Rightarrow> string option \<Rightarrow> jmap_thread option" where
  "getThread c net tid acc =
     (case request c net [Thread_get (targetAccountId c acc) [tid]] of
        Inl e \<Rightarrow> None
      | Inr response \<Rightarrow>
          if response_name response 0 = Some ''Thread/get'' then
            (case response_result response 0 of
               Some res \<Rightarrow>
                 (case (case thread_list res of Some l \<Rightarrow> l | None \<Rightarrow> []) of
                    [] \<Rightarrow> None
                  | t # _ \<Rightarrow> Some t)
             | None \<Rightarrow> None)
          else None)"

definition getThreadEmails :: "jmap_client \<Rightarrow> network \<Rightarrow> string \<Rightarrow> string option \<Rightarrow> email list" where
  "getThreadEmails c net tid acc =
     (case getThread c net tid acc of
        None \<Rightarrow> []
      | Some thread \<Rightarrow>
          (case emailIds thread of
             None \<Rightarrow> []
           | Some ids \<Rightarrow>
               if ids = [] then []
               else
                 (case request c net [Email_get (targetAccountId c acc) ids False] of
                    Inl e \<Rightarrow> []
                  | Inr response \<Rightarrow>
                      if response_name response 0 = Some ''Email/get'' then
                        (case response_result response 0 of
                           Some res \<Rightarrow>
                             (let emails = (case email_list res of Some l \<Rightarrow> l | None \<Rightarrow> []);
                                  emails' = (if isSharedAccount c acc
                                             then map (namespace_email (or_else acc [])) emails
                                             else emails)
                              in sort_newest_first emails')
                         | None \<Rightarrow> [])
                      else [])))"

subsection \<open>Mutations\<close>

text \<open>The mutation methods of lines 631-754.  Each awaits one \<^verbatim>\<open>Email/set\<close> request and
  returns; the response is not bound to a name.  A method throws exactly when
  \<^verbatim>\<open>request\<close> throws.\<close>

definition await_request :: "jmap_client \<Rightarrow> network \<Rightarrow> method_call list \<Rightarrow> js_error + unit" where
  "await_request c net methodCalls =
     (case request c net methodCalls of Inl e \<Rightarrow> Inl e | Inr response \<Rightarrow> Inr ())"

definition client_markAsRead ::
  "jmap_client \<Rightarrow> network \<Rightarrow> string \<Rightarrow> bool \<Rightarrow> string option \<Rightarrow> js_error + unit" where
  "client_markAsRead c net emailId read acc =
     await_request c net
       [Email_set_update (targetAccountId c acc) [(emailId, [Keyword_path ''$seen'' read])]]"

definition client_batchMarkAsRead ::
  "jmap_client \<Rightarrow> network \<Rightarrow> string list \<Rightarrow> bool \<Rightarrow> js_error + unit" where
  "client_batchMarkAsRead c net ids read =
     (if ids = [] then Inr ()
      else await_request c net
             [Email_set_update (client_accountId c)
                (foldl (\<lambda>updates i. obj_set i [Keyword_path ''$seen'' read] updates) [] ids)])"

definition client_toggleStar :: "jmap_client \<Rightarrow> network \<Rightarrow> string \<Rightarrow> bool \<Rightarrow> js_error + unit" where
  "client_toggleStar c net emailId starred =
     await_request c net
       [Email_set_update (client_accountId c) [(emailId, [Keyword_path ''$flagged'' starred])]]"

definition client_updateEmailKeywords ::
  "jmap_client \<Rightarrow> network \<Rightarrow> string \<Rightarrow> bool js_object \<Rightarrow> js_error + unit" where
  "client_updateEmailKeywords c net emailId kws =
     await_request c net
       [Email_set_update (client_accountId c) [(emailId, [Keywords_object kws])]]"

definition client_deleteEmail :: "jmap_client \<Rightarrow> network \<Rightarrow> string \<Rightarrow> js_error + unit" where
  "client_deleteEmail c net emailId =
     await_request c net [Email_set_destroy (client_accountId c) [emailId]]"

definition client_moveToTrash ::
  "jmap_client \<Rightarrow> network \<Rightarrow> string \<Rightarrow> string \<Rightarrow> string option \<Rightarrow> js_error + unit" where
  "client_moveToTrash c net emailId trashMailboxId acc =
     await_request c net
       [Email_set_update (targetAccountId c acc)
          [(emailId, [MailboxIds_object [(trashMailboxId, True)]])]]"

definition client_batchDeleteEmails ::
  "jmap_client \<Rightarrow> network \<Rightarrow> string list \<Rightarrow> js_error + unit" where
  "client_batchDeleteEmails c net ids =
     (if ids = [] then Inr ()
      else await_request c net [Email_set_destroy (client_accountId c) ids])"

definition client_batchMoveEmails ::
  "jmap_client \<Rightarrow> network \<Rightarrow> string list \<Rightarrow> string \<Rightarrow> js_error + unit" where
  "client_batchMoveEmails c net ids toMailboxId =
     (if ids = [] then Inr ()
      else await_request c net
             [Email_set_update (client_accountId c)
                (foldl (\<lambda>updates i. obj_set i [MailboxIds_object [(toMailboxId, True)]] updates)
                       [] ids)])"

definition client_moveEmail ::
  "jmap_client \<Rightarrow> network \<Rightarrow> string \<Rightarrow> string \<Rightarrow> js_error + unit" where
  "client_moveEmail c net emailId toMailboxId =
     await_request c net
       [Email_set_update (client_accountId c)
          [(emailId, [MailboxIds_object [(toMailboxId, True)]])]]"

text \<open>\<^verbatim>\<open>createDraft\<close> (lines 888-1005).  \<open>now\<close> is \<^verbatim>\<open>Date.now()\<close>.  With a draft id
  the old draft is destroyed and the new one created in one batch, and the second
  response is the one inspected.  \<^verbatim>\<open>firstError?.description || firstError?.type ||
  'Failed to save draft'\<close> is \<open>first_error_message\<close>.\<close>

definition first_error_message :: "set_error js_object \<Rightarrow> string \<Rightarrow> string" where
  "first_error_message errors fallback =
     (case obj_values errors of
        [] \<Rightarrow> fallback
      | firstError # _ \<Rightarrow>
          or_else (err_description firstError) (or_else (err_type firstError) fallback))"

definition createDraft ::
  "jmap_client \<Rightarrow> network \<Rightarrow> nat \<Rightarrow> string list \<Rightarrow> string \<Rightarrow> string \<Rightarrow> string list option \<Rightarrow>
   string list option \<Rightarrow> string option \<Rightarrow> (string \<times> string \<times> string) list option \<Rightarrow>
   js_error + string" where
  "createDraft c net now to subject body cc bcc draftId attachments =
     (case find (\<lambda>mb. role mb = Some ''drafts'') (getMailboxes c net) of
        None \<Rightarrow> Inl (Error ''No drafts mailbox found'')
      | Some draftsMailbox \<Rightarrow>
          (let emailId = ''draft-'' @ decimal now;
               emailData =
                 \<lparr> draft_from = username c, draft_to = to, draft_cc = cc, draft_bcc = bcc,
                   draft_subject = subject, draft_keywords = [(''$draft'', True)],
                   draft_mailboxIds = [(mailbox_id draftsMailbox, True)], draft_body = body,
                   draft_attachments =
                     (case attachments of
                        Some atts \<Rightarrow> if atts \<noteq> [] then Some atts else None
                      | None \<Rightarrow> None) \<rparr>;
               methodCalls =
                 (case truthy_str draftId of
                    Some d \<Rightarrow> [Email_set_destroy (client_accountId c) [d],
                               Email_set_create (client_accountId c) emailId emailData]
                  | None \<Rightarrow> [Email_set_create (client_accountId c) emailId emailData])
           in case request c net methodCalls of
                Inl e \<Rightarrow> Inl e
              | Inr response \<Rightarrow>
                  (let responseIndex = (if truthy_str draftId \<noteq> None then 1 else 0)
                   in case (if response_name response responseIndex = Some ''Email/set''
                            then response_result response responseIndex else None) of
                        Some result \<Rightarrow>
                          (case (case notCreated result of Some errs \<Rightarrow> Some errs
                                 | None \<Rightarrow> notUpdated result) of
                             Some errors \<Rightarrow>
                               Inl (Error (first_error_message errors ''Failed to save draft''))
                           | None \<Rightarrow>
                               (case (case created result of Some cr \<Rightarrow> obj_get cr emailId
                                      | None \<Rightarrow> None) of
                                  Some newId \<Rightarrow> Inr newId
                                | None \<Rightarrow> Inl (Error ''Failed to save draft'')))
                      | None \<Rightarrow> Inl (Error ''Failed to save draft''))))"

subsection \<open>A server for the paging scenario\<close>

text \<open>Not code of the repository: the JMAP server of the scenario "a mailbox holding
  five emails", answering the batch of \<^verbatim>\<open>getEmails\<close> as RFC 8621 has it.  The query
  yields the ids of the mailbox's emails (newest first) from \<open>position\<close> on, at most
  \<open>limit\<close> of them, and the back-referenced \<^verbatim>\<open>Email/get\<close> yields those emails;
  \<^verbatim>\<open>total\<close> is in the query response only on a server that reports it (the client
  does not ask for it).  Any other request is refused.\<close>

definition empty_result :: jmap_result where
  "empty_result =
     \<lparr> mailbox_list = None, email_list = None, thread_list = None, res_total = None,
       notCreated = None, notUpdated = None, created = None \<rparr>"

definition jmap_server :: "email list \<Rightarrow> bool \<Rightarrow> network" where
  "jmap_server held reports_total methodCalls =
     (case methodCalls of
        [Email_query acc inMailbox limit position, Email_get_resultOf acc'] \<Rightarrow>
          Ok_json \<lparr> methodResponses = Some
            [(''Email/query'',
              empty_result\<lparr>res_total := (if reports_total then Some (int (length held)) else None)\<rparr>),
             (''Email/get'',
              empty_result\<lparr>email_list := Some (take (nat limit) (drop (nat position) held))\<rparr>)] \<rparr>
      | _ \<Rightarrow> Not_ok 400 ''unsupported'')"

text \<open>The condition of the amended claim C3: the batch of \<^verbatim>\<open>getEmails\<close> came back with
  a second method response named \<^verbatim>\<open>Email/get\<close>.\<close>

definition email_get_answered ::
  "jmap_client \<Rightarrow> network \<Rightarrow> string option \<Rightarrow> string option \<Rightarrow> int \<Rightarrow> int \<Rightarrow> bool" where
  "email_get_answered c net mailboxId acc limit position =
     (case request c net
             [Email_query (targetAccountId c acc) (truthy_str mailboxId) limit position,
              Email_get_resultOf (targetAccountId c acc)] of
        Inl e \<Rightarrow> False
      | Inr response \<Rightarrow> response_name response 1 = Some ''Email/get'')"

text \<open>The total of the amended claim C3: the \<^verbatim>\<open>total\<close> the server reported in the
  \<^verbatim>\<open>Email/query\<close> response of that batch, the first method response, and 0 when it
  reported none.\<close>

definition reported_total ::
  "jmap_client \<Rightarrow> network \<Rightarrow> string option \<Rightarrow> string option \<Rightarrow> int \<Rightarrow> int \<Rightarrow> int" where
  "reported_total c net mailboxId acc limit position =
     (case request c net
             [Email_query (targetAccountId c acc) (truthy_str mailboxId) limit position,
              Email_get_resultOf (targetAccountId c acc)] of
        Inl e \<Rightarrow> 0
      | Inr response \<Rightarrow>
          (case response_result response 0 of
             Some queryResponse \<Rightarrow> (case res_total queryResponse of Some n \<Rightarrow> n | None \<Rightarrow> 0)
           | None \<Rightarrow> 0))"

subsection \<open>What the server sent\<close>

text \<open>The emails in the \<^verbatim>\<open>list\<close> of the \<open>i\<close>-th method response to a request, as the
  server sent them (none when the request fails); the statements on namespacing compare
  what the client returns with these.\<close>

definition served_emails :: "jmap_client \<Rightarrow> network \<Rightarrow> method_call list \<Rightarrow> nat \<Rightarrow> email list" where
  "served_emails c net methodCalls i =
     (case request c net methodCalls of
        Inl e \<Rightarrow> []
      | Inr response \<Rightarrow>
          (case response_result response i of
             Some res \<Rightarrow> (case email_list res of Some l \<Rightarrow> l | None \<Rightarrow> [])
           | None \<Rightarrow> []))"

section \<open>The Mail Store (useEmailStore, src/unnamed/part_017)\<close>

subsection \<open>State\<close>

text \<open>The data fields of \<^verbatim>\<open>EmailStore\<close>.  A \<^verbatim>\<open>Set<string>\<close> that is only tested for
  membership is a set; the selection, which \<^verbatim>\<open>Array.from\<close> turns into the id list of a
  batch request, is a list in insertion order.\<close>

record store =
  emails :: "email list"
  mailboxes :: "mailbox list"
  selectedEmail :: "email option"
  selectedMailbox :: string
  isLoading :: bool
  isLoadingEmail :: bool
  isLoadingMore :: bool
  error :: "string option"
  searchQuery :: string
  quota :: "(int \<times> int) option"
  processingReadStatus :: "string set"
  selectedEmailIds :: "string list"
  hasMoreEmails :: bool
  store_totalEmails :: int
  isPushConnected :: bool
  lastPushUpdate :: "int option"
  newEmailNotification :: "email option"
  expandedThreadIds :: "string set"
  threadEmailsCache :: "email list js_object"
  isLoadingThread :: "string option"

text \<open>The calls the store makes on the client, and the client carrying one out.\<close>

datatype client_call =
    Call_markAsRead string bool "string option"
  | Call_toggleStar string bool
  | Call_moveToTrash string string "string option"
  | Call_deleteEmail string
  | Call_moveEmail string string
  | Call_batchMarkAsRead "string list" bool
  | Call_batchDeleteEmails "string list"
  | Call_batchMoveEmails "string list" string

fun perform :: "jmap_client \<Rightarrow> network \<Rightarrow> client_call \<Rightarrow> js_error + unit" where
  "perform c net (Call_markAsRead i read acc) = client_markAsRead c net i read acc"
| "perform c net (Call_toggleStar i starred) = client_toggleStar c net i starred"
| "perform c net (Call_moveToTrash i trashId acc) = client_moveToTrash c net i trashId acc"
| "perform c net (Call_deleteEmail i) = client_deleteEmail c net i"
| "perform c net (Call_moveEmail i dest) = client_moveEmail c net i dest"
| "perform c net (Call_batchMarkAsRead ids read) = client_batchMarkAsRead c net ids read"
| "perform c net (Call_batchDeleteEmails ids) = client_batchDeleteEmails c net ids"
| "perform c net (Call_batchMoveEmails ids dest) = client_batchMoveEmails c net ids dest"

text \<open>What a store operation comes to: the state it leaves, the client calls it issued
  and the error it rejected with, if any.\<close>

record outcome =
  final :: store
  calls :: "client_call list"
  thrown :: "js_error option"

text \<open>\<^verbatim>\<open>error instanceof Error ? error.message : "..."\<close>: everything the model throws is an
  \<^verbatim>\<open>Error\<close>.\<close>

fun message :: "js_error \<Rightarrow> string" where
  "message (Error m) = m"

text \<open>\<^verbatim>\<open>get().emails.find(e => e.id === emailId)\<close>.\<close>

definition find_email :: "string \<Rightarrow> store \<Rightarrow> email option" where
  "find_email i s = find (\<lambda>e. email_id e = i) (emails s)"

text \<open>The account of the selected mailbox when that is a shared one:
  \<^verbatim>\<open>mailbox?.isShared ? mailbox.accountId : undefined\<close>.\<close>

definition shared_accountId :: "store \<Rightarrow> string option" where
  "shared_accountId s =
     (case find (\<lambda>mb. mailbox_id mb = selectedMailbox s) (mailboxes s) of
        Some mb \<Rightarrow> if is_shared mb then accountId mb else None
      | None \<Rightarrow> None)"

text \<open>\<^verbatim>\<open>{ ...e, keywords: { ...e.keywords, [k]: v } }\<close>.\<close>

definition with_keyword :: "string \<Rightarrow> bool \<Rightarrow> email \<Rightarrow> email" where
  "with_keyword k v e =
     e\<lparr>email_keywords := Some (obj_set k v (case email_keywords e of Some kw \<Rightarrow> kw | None \<Rightarrow> []))\<rparr>"

text \<open>\<^verbatim>\<open>state.selectedEmail?.id === emailId ? f(state.selectedEmail) : state.selectedEmail\<close>.\<close>

definition on_selected :: "string \<Rightarrow> (email \<Rightarrow> email option) \<Rightarrow> store \<Rightarrow> email option" where
  "on_selected i f s =
     (case selectedEmail s of
        Some sel \<Rightarrow> if email_id sel = i then f sel else Some sel
      | None \<Rightarrow> None)"

subsection \<open>markAsRead (lines 411-495)\<close>

text \<open>The template literal \<^verbatim>\<open>`${emailId}-${read}`\<close>.\<close>

definition processingKey :: "string \<Rightarrow> bool \<Rightarrow> string" where
  "processingKey i read = i @ ''-'' @ (if read then ''true'' else ''false'')"

text \<open>The synchronous part, up to the \<^verbatim>\<open>await\<close>: the state it leaves and the client
  call it suspends on, if it does not return before.\<close>

definition markAsRead_start :: "string \<Rightarrow> bool \<Rightarrow> store \<Rightarrow> store \<times> client_call option" where
  "markAsRead_start i read s =
     (if processingKey i read \<in> processingReadStatus s then (s, None)
      else case find_email i s of
             None \<Rightarrow> (s, None)
           | Some email \<Rightarrow>
               if is_seen email = read then (s, None)
               else (let s1 = s\<lparr>processingReadStatus :=
                                   insert (processingKey i read) (processingReadStatus s)\<rparr>
                     in (s1, Some (Call_markAsRead i read (shared_accountId s1)))))"

text \<open>The state update once the client call has resolved (lines 444-482).\<close>

definition markAsRead_resolved :: "string \<Rightarrow> bool \<Rightarrow> store \<Rightarrow> store" where
  "markAsRead_resolved i read state =
     (let newProcessingSet = processingReadStatus state - {processingKey i read}
      in case find_email i state of
           None \<Rightarrow> state\<lparr>processingReadStatus := newProcessingSet\<rparr>
         | Some emailInState \<Rightarrow>
             if is_seen emailInState = read then state\<lparr>processingReadStatus := newProcessingSet\<rparr>
             else
               (let delta = (if read then - 1 else 1);
                    updatedMailboxes =
                      map (\<lambda>mb. if in_mailbox emailInState (mailbox_id mb)
                                then mb\<lparr>unreadEmails := max 0 (unreadEmails mb + delta),
                                        unreadThreads := max 0 (unreadThreads mb + delta)\<rparr>
                                else mb)
                          (mailboxes state)
                in state\<lparr>emails := map (\<lambda>e. if email_id e = i then with_keyword ''$seen'' read e
                                                else e) (emails state),
                         selectedEmail := on_selected i (\<lambda>sel. Some (with_keyword ''$seen'' read sel)) state,
                         mailboxes := updatedMailboxes,
                         processingReadStatus := newProcessingSet\<rparr>))"

text \<open>The \<^verbatim>\<open>catch\<close> (lines 483-494), which rethrows.\<close>

definition markAsRead_rejected :: "string \<Rightarrow> bool \<Rightarrow> js_error \<Rightarrow> store \<Rightarrow> store" where
  "markAsRead_rejected i read e state =
     state\<lparr>processingReadStatus := processingReadStatus state - {processingKey i read},
           error := Some (message e)\<rparr>"

definition markAsRead_finish ::
  "string \<Rightarrow> bool \<Rightarrow> js_error + unit \<Rightarrow> store \<Rightarrow> store \<times> js_error option" where
  "markAsRead_finish i read result state =
     (case result of
        Inr u \<Rightarrow> (markAsRead_resolved i read state, None)
      | Inl e \<Rightarrow> (markAsRead_rejected i read e state, Some e))"

text \<open>One invocation that nothing else interleaves with.\<close>

definition markAsRead :: "jmap_client \<Rightarrow> network \<Rightarrow> string \<Rightarrow> bool \<Rightarrow> store \<Rightarrow> outcome" where
  "markAsRead c net i read s =
     (case markAsRead_start i read s of
        (s1, None) \<Rightarrow> \<lparr> final = s1, calls = [], thrown = None \<rparr>
      | (s1, Some call) \<Rightarrow>
          (let (s2, t) = markAsRead_finish i read (perform c net call) s1
           in \<lparr> final = s2, calls = [call], thrown = t \<rparr>))"

subsection \<open>deleteEmail (lines 287-409)\<close>

text \<open>The counter updates for a mailbox an email leaves and for one it enters, as
  \<^verbatim>\<open>deleteEmail\<close> (trash mode) and \<^verbatim>\<open>moveToMailbox\<close> write them.\<close>

definition email_leaves :: "bool \<Rightarrow> mailbox \<Rightarrow> mailbox" where
  "email_leaves isUnread mb =
     mb\<lparr>totalEmails := max 0 (totalEmails mb - 1),
        unreadEmails := (if isUnread then max 0 (unreadEmails mb - 1) else unreadEmails mb),
        totalThreads := max 0 (totalThreads mb - 1),
        unreadThreads := (if isUnread then max 0 (unreadThreads mb - 1) else unreadThreads mb)\<rparr>"

definition email_arrives :: "bool \<Rightarrow> mailbox \<Rightarrow> mailbox" where
  "email_arrives isUnread mb =
     mb\<lparr>totalEmails := totalEmails mb + 1,
        unreadEmails := (if isUnread then unreadEmails mb + 1 else unreadEmails mb),
        totalThreads := totalThreads mb + 1,
        unreadThreads := (if isUnread then unreadThreads mb + 1 else unreadThreads mb)\<rparr>"

text \<open>The lookup of the trash mailbox (lines 307-314); \<^verbatim>\<open>if (accountId)\<close> tests a
  string for truthiness.\<close>

definition find_trash :: "store \<Rightarrow> mailbox option" where
  "find_trash s =
     find (\<lambda>mb. case truthy_str (shared_accountId s) of
                  Some acc \<Rightarrow> role mb = Some ''trash'' \<and> accountId mb = Some acc
                | None \<Rightarrow> role mb = Some ''trash'' \<and> \<not> is_shared mb)
          (mailboxes s)"

text \<open>The synchronous part: nothing when the email is not in the list, else the call to
  await together with what the continuation keeps (the email and, in trash mode, the
  trash mailbox found).  \<open>deleteAction\<close> is the user preference read from the settings
  store.\<close>

definition deleteEmail_start ::
  "string \<Rightarrow> string \<Rightarrow> store \<Rightarrow> (client_call \<times> email \<times> mailbox option) option" where
  "deleteEmail_start deleteAction i s =
     (case find_email i s of
        None \<Rightarrow> None
      | Some email \<Rightarrow>
          (case (if deleteAction = ''trash'' then find_trash s else None) of
             Some trashMailbox \<Rightarrow>
               Some (Call_moveToTrash i (or_else (originalId trashMailbox) (mailbox_id trashMailbox))
                       (shared_accountId s),
                     email, Some trashMailbox)
           | None \<Rightarrow> Some (Call_deleteEmail i, email, None)))"

text \<open>The state update after a move to trash (lines 322-356).\<close>

definition deleteEmail_trashed :: "string \<Rightarrow> email \<Rightarrow> mailbox \<Rightarrow> store \<Rightarrow> store" where
  "deleteEmail_trashed i email trashMailbox state =
     (let isUnread = \<not> is_seen email;
          updatedMailboxes =
            (if mailboxIds email \<noteq> None
             then map (\<lambda>mb. if in_mailbox email (mailbox_id mb) then email_leaves isUnread mb
                            else if mailbox_id mb = mailbox_id trashMailbox
                            then email_arrives isUnread mb
                            else mb)
                      (mailboxes state)
             else mailboxes state)
      in state\<lparr>emails := filter (\<lambda>e. email_id e \<noteq> i) (emails state),
               selectedEmail := on_selected i (\<lambda>sel. None) state,
               mailboxes := updatedMailboxes\<rparr>)"

text \<open>The state update after a permanent delete (lines 366-402).\<close>

definition deleteEmail_destroyed :: "string \<Rightarrow> email \<Rightarrow> store \<Rightarrow> store" where
  "deleteEmail_destroyed i email state =
     (let isUnread = \<not> is_seen email;
          updatedMailboxes =
            (if isUnread \<and> mailboxIds email \<noteq> None
             then map (\<lambda>mb. if in_mailbox email (mailbox_id mb)
                            then mb\<lparr>totalEmails := max 0 (totalEmails mb - 1),
                                    unreadEmails := max 0 (unreadEmails mb - 1),
                                    totalThreads := max 0 (totalThreads mb - 1),
                                    unreadThreads := max 0 (unreadThreads mb - 1)\<rparr>
                            else mb)
                      (mailboxes state)
             else if mailboxIds email \<noteq> None
             then map (\<lambda>mb. if in_mailbox email (mailbox_id mb)
                            then mb\<lparr>totalEmails := max 0 (totalEmails mb - 1),
                                    totalThreads := max 0 (totalThreads mb - 1)\<rparr>
                            else mb)
                      (mailboxes state)
             else mailboxes state)
      in state\<lparr>emails := filter (\<lambda>e. email_id e \<noteq> i) (emails state),
               selectedEmail := on_selected i (\<lambda>sel. None) state,
               mailboxes := updatedMailboxes\<rparr>)"

definition deleteEmail_finish ::
  "string \<Rightarrow> email \<Rightarrow> mailbox option \<Rightarrow> js_error + unit \<Rightarrow> store \<Rightarrow> store \<times> js_error option" where
  "deleteEmail_finish i email trash result state =
     (case result of
        Inr u \<Rightarrow>
          (case trash of
             Some trashMailbox \<Rightarrow> (deleteEmail_trashed i email trashMailbox state, None)
           | None \<Rightarrow> (deleteEmail_destroyed i email state, None))
      | Inl e \<Rightarrow> (state\<lparr>error := Some (message e)\<rparr>, Some e))"

definition deleteEmail :: "jmap_client \<Rightarrow> network \<Rightarrow> string \<Rightarrow> string \<Rightarrow> store \<Rightarrow> outcome" where
  "deleteEmail c net deleteAction i s =
     (case deleteEmail_start deleteAction i s of
        None \<Rightarrow> \<lparr> final = s, calls = [], thrown = None \<rparr>
      | Some (call, email, trash) \<Rightarrow>
          (let (s2, t) = deleteEmail_finish i email trash (perform c net call) s
           in \<lparr> final = s2, calls = [call], thrown = t \<rparr>))"

subsection \<open>moveToMailbox (lines 497-563)\<close>

definition moveToMailbox_start :: "string \<Rightarrow> string \<Rightarrow> store \<Rightarrow> (client_call \<times> email) option" where
  "moveToMailbox_start i destinationMailboxId s =
     (case find_email i s of
        None \<Rightarrow> None
      | Some email \<Rightarrow> Some (Call_moveEmail i destinationMailboxId, email))"

text \<open>The state update of lines 509-556.  \<^verbatim>\<open>currentMailboxIds\<close> is
  \<^verbatim>\<open>Object.keys(email.mailboxIds)\<close>, whatever the values are.\<close>

definition moveToMailbox_resolved :: "string \<Rightarrow> string \<Rightarrow> email \<Rightarrow> store \<Rightarrow> store" where
  "moveToMailbox_resolved i destinationMailboxId email state =
     (let isUnread = \<not> is_seen email;
          currentMailboxIds = (case mailboxIds email of Some ids \<Rightarrow> obj_keys ids | None \<Rightarrow> []);
          updatedMailboxes =
            map (\<lambda>mb. if mailbox_id mb \<in> set currentMailboxIds then email_leaves isUnread mb
                      else if mailbox_id mb = destinationMailboxId then email_arrives isUnread mb
                      else mb)
                (mailboxes state);
          updatedEmails =
            map (\<lambda>e. if email_id e = i then e\<lparr>mailboxIds := Some [(destinationMailboxId, True)]\<rparr>
                      else e)
                (emails state)
      in state\<lparr>emails := updatedEmails,
               selectedEmail :=
                 on_selected i (\<lambda>sel. Some (sel\<lparr>mailboxIds := Some [(destinationMailboxId, True)]\<rparr>))
                   state,
               mailboxes := updatedMailboxes\<rparr>)"

definition moveToMailbox_finish ::
  "string \<Rightarrow> string \<Rightarrow> email \<Rightarrow> js_error + unit \<Rightarrow> store \<Rightarrow> store \<times> js_error option" where
  "moveToMailbox_finish i destinationMailboxId email result state =
     (case result of
        Inr u \<Rightarrow> (moveToMailbox_resolved i destinationMailboxId email state, None)
      | Inl e \<Rightarrow> (state\<lparr>error := Some (message e)\<rparr>, Some e))"

definition moveToMailbox :: "jmap_client \<Rightarrow> network \<Rightarrow> string \<Rightarrow> string \<Rightarrow> store \<Rightarrow> outcome" where
  "moveToMailbox c net i destinationMailboxId s =
     (case moveToMailbox_start i destinationMailboxId s of
        None \<Rightarrow> \<lparr> final = s, calls = [], thrown = None \<rparr>
      | Some (call, email) \<Rightarrow>
          (let (s2, t) = moveToMailbox_finish i destinationMailboxId email (perform c net call) s
           in \<lparr> final = s2, calls = [call], thrown = t \<rparr>))"

subsection \<open>toggleStar (lines 581-604)\<close>

text \<open>\<^verbatim>\<open>email.keywords.$flagged\<close> is read without a guard: on an email without
  \<^verbatim>\<open>keywords\<close> it throws a TypeError inside the \<^verbatim>\<open>try\<close> (the message is the
  engine's).\<close>

definition keywords_TypeError :: js_error where
  "keywords_TypeError = Error ''Cannot read properties of undefined (reading '$flagged')''"

definition toggleStar_start :: "string \<Rightarrow> store \<Rightarrow> (js_error + client_call \<times> bool) option" where
  "toggleStar_start i s =
     (case find_email i s of
        None \<Rightarrow> None
      | Some email \<Rightarrow>
          (case email_keywords email of
             None \<Rightarrow> Some (Inl keywords_TypeError)
           | Some kw \<Rightarrow>
               (let isFlagged = (obj_get kw ''$flagged'' = Some True)
                in Some (Inr (Call_toggleStar i (\<not> isFlagged), isFlagged)))))"

definition toggleStar_finish ::
  "string \<Rightarrow> bool \<Rightarrow> js_error + unit \<Rightarrow> store \<Rightarrow> store \<times> js_error option" where
  "toggleStar_finish i isFlagged result state =
     (case result of
        Inr u \<Rightarrow>
          (state\<lparr>emails := map (\<lambda>e. if email_id e = i then with_keyword ''$flagged'' (\<not> isFlagged) e
                                     else e) (emails state),
                 selectedEmail :=
                   on_selected i (\<lambda>sel. Some (with_keyword ''$flagged'' (\<not> isFlagged) sel)) state\<rparr>,
           None)
      | Inl e \<Rightarrow> (state\<lparr>error := Some (message e)\<rparr>, Some e))"

definition toggleStar :: "jmap_client \<Rightarrow> network \<Rightarrow> string \<Rightarrow> store \<Rightarrow> outcome" where
  "toggleStar c net i s =
     (case toggleStar_start i s of
        None \<Rightarrow> \<lparr> final = s, calls = [], thrown = None \<rparr>
      | Some (Inl e) \<Rightarrow> \<lparr> final = s\<lparr>error := Some (message e)\<rparr>, calls = [], thrown = Some e \<rparr>
      | Some (Inr (call, isFlagged)) \<Rightarrow>
          (let (s2, t) = toggleStar_finish i isFlagged (perform c net call) s
           in \<lparr> final = s2, calls = [call], thrown = t \<rparr>))"

subsection \<open>Loading a page (fetchEmails, lines 167-200)\<close>

text \<open>\<^verbatim>\<open>getEmails\<close> never rejects, so the \<^verbatim>\<open>catch\<close> of \<^verbatim>\<open>fetchEmails\<close> is never
  entered.  \<open>emailsPerPage\<close> is the user preference read from the settings store.\<close>

definition fetchEmails ::
  "jmap_client \<Rightarrow> network \<Rightarrow> int \<Rightarrow> string option \<Rightarrow> store \<Rightarrow> store" where
  "fetchEmails c net emailsPerPage mailboxId s =
     (let s1 = s\<lparr>isLoading := True, error := None\<rparr>;
          targetMailboxId = or_else mailboxId (selectedMailbox s1);
          mailbox = find (\<lambda>mb. mailbox_id mb = targetMailboxId) (mailboxes s1);
          acc = (case mailbox of Some mb \<Rightarrow> if is_shared mb then accountId mb else None
                 | None \<Rightarrow> None);
          jmapMailboxId = or_else (case mailbox of Some mb \<Rightarrow> originalId mb | None \<Rightarrow> None)
                            targetMailboxId;
          result = getEmails c net (Some jmapMailboxId) acc emailsPerPage 0
      in s1\<lparr>emails := page_emails result,
            hasMoreEmails := hasMore result,
            store_totalEmails := page_total result,
            isLoading := False\<rparr>)"

subsection \<open>Batch operations (lines 607-734)\<close>

text \<open>Each batch operation destructures \<^verbatim>\<open>get()\<close> before the \<^verbatim>\<open>await\<close> and computes
  the new state from that snapshot: the selection, the emails and the mailboxes.\<close>

type_synonym snapshot = "string list \<times> email list \<times> mailbox list"

definition batch_start :: "(string list \<Rightarrow> client_call) \<Rightarrow> store \<Rightarrow> (store \<times> client_call \<times> snapshot) option" where
  "batch_start mk_call s =
     (if selectedEmailIds s = [] then None
      else Some (s\<lparr>isLoading := True, error := None\<rparr>,
                 mk_call (selectedEmailIds s),
                 (selectedEmailIds s, emails s, mailboxes s)))"

text \<open>The \<^verbatim>\<open>forEach\<close> loops that add up \<^verbatim>\<open>deltaUnread\<close> of \<^verbatim>\<open>batchMarkAsRead\<close> and
  \<^verbatim>\<open>deltaTotalEmails\<close>, \<^verbatim>\<open>deltaUnreadEmails\<close> of \<^verbatim>\<open>batchDelete\<close> for one mailbox.\<close>

definition deltaUnread_markAsRead :: "bool \<Rightarrow> email list \<Rightarrow> mailbox \<Rightarrow> int" where
  "deltaUnread_markAsRead read affectedEmails mb =
     foldl (\<lambda>deltaUnread email.
              if in_mailbox email (mailbox_id mb) then
                (if is_seen email \<noteq> read then deltaUnread + (if read then - 1 else 1)
                 else deltaUnread)
              else deltaUnread)
           0 affectedEmails"

definition deltaTotal_delete :: "email list \<Rightarrow> mailbox \<Rightarrow> int" where
  "deltaTotal_delete deletedEmails mb =
     foldl (\<lambda>deltaTotalEmails email.
              if in_mailbox email (mailbox_id mb) then deltaTotalEmails - 1 else deltaTotalEmails)
           0 deletedEmails"

definition deltaUnread_delete :: "email list \<Rightarrow> mailbox \<Rightarrow> int" where
  "deltaUnread_delete deletedEmails mb =
     foldl (\<lambda>deltaUnreadEmails email.
              if in_mailbox email (mailbox_id mb) then
                (if \<not> is_seen email then deltaUnreadEmails - 1 else deltaUnreadEmails)
              else deltaUnreadEmails)
           0 deletedEmails"

definition batchMarkAsRead_finish :: "bool \<Rightarrow> snapshot \<Rightarrow> js_error + unit \<Rightarrow> store \<Rightarrow> store" where
  "batchMarkAsRead_finish read snap result state =
     (case snap of (selected, emails0, mailboxes0) \<Rightarrow>
        (case result of
           Inr u \<Rightarrow>
             (let updatedEmails =
                    map (\<lambda>email. if email_id email \<in> set selected
                                  then with_keyword ''$seen'' read email else email) emails0;
                  affectedEmails = filter (\<lambda>e. email_id e \<in> set selected) emails0;
                  updatedMailboxes =
                    map (\<lambda>mb. let deltaUnread = deltaUnread_markAsRead read affectedEmails mb
                              in mb\<lparr>unreadEmails := max 0 (unreadEmails mb + deltaUnread),
                                    unreadThreads := max 0 (unreadThreads mb + deltaUnread)\<rparr>)
                        mailboxes0
              in state\<lparr>emails := updatedEmails, mailboxes := updatedMailboxes,
                       selectedEmailIds := [], isLoading := False\<rparr>)
         | Inl e \<Rightarrow> state\<lparr>error := Some (message e), isLoading := False\<rparr>))"

definition batchMarkAsRead :: "jmap_client \<Rightarrow> network \<Rightarrow> bool \<Rightarrow> store \<Rightarrow> outcome" where
  "batchMarkAsRead c net read s =
     (case batch_start (\<lambda>ids. Call_batchMarkAsRead ids read) s of
        None \<Rightarrow> \<lparr> final = s, calls = [], thrown = None \<rparr>
      | Some (s1, call, snap) \<Rightarrow>
          \<lparr> final = batchMarkAsRead_finish read snap (perform c net call) s1,
            calls = [call], thrown = None \<rparr>)"

definition batchDelete_finish :: "snapshot \<Rightarrow> js_error + unit \<Rightarrow> store \<Rightarrow> store" where
  "batchDelete_finish snap result state =
     (case snap of (selected, emails0, mailboxes0) \<Rightarrow>
        (case result of
           Inr u \<Rightarrow>
             (let remainingEmails = filter (\<lambda>e. email_id e \<notin> set selected) emails0;
                  deletedEmails = filter (\<lambda>e. email_id e \<in> set selected) emails0;
                  updatedMailboxes =
                    map (\<lambda>mb. let deltaTotalEmails = deltaTotal_delete deletedEmails mb;
                                  deltaUnreadEmails = deltaUnread_delete deletedEmails mb
                              in mb\<lparr>totalEmails := max 0 (totalEmails mb + deltaTotalEmails),
                                    unreadEmails := max 0 (unreadEmails mb + deltaUnreadEmails),
                                    totalThreads := max 0 (totalThreads mb + deltaTotalEmails),
                                    unreadThreads := max 0 (unreadThreads mb + deltaUnreadEmails)\<rparr>)
                        mailboxes0
              in state\<lparr>emails := remainingEmails, mailboxes := updatedMailboxes,
                       selectedEmailIds := [], selectedEmail := None, isLoading := False\<rparr>)
         | Inl e \<Rightarrow> state\<lparr>error := Some (message e), isLoading := False\<rparr>))"

definition batchDelete :: "jmap_client \<Rightarrow> network \<Rightarrow> store \<Rightarrow> outcome" where
  "batchDelete c net s =
     (case batch_start Call_batchDeleteEmails s of
        None \<Rightarrow> \<lparr> final = s, calls = [], thrown = None \<rparr>
      | Some (s1, call, snap) \<Rightarrow>
          \<lparr> final = batchDelete_finish snap (perform c net call) s1,
            calls = [call], thrown = None \<rparr>)"

text \<open>\<^verbatim>\<open>batchMoveToMailbox\<close> (lines 708-734): on success the moved emails are taken off
  the list and the current mailbox is fetched again; the mailboxes are not written.\<close>

definition batchMoveToMailbox ::
  "jmap_client \<Rightarrow> network \<Rightarrow> int \<Rightarrow> string \<Rightarrow> store \<Rightarrow> outcome" where
  "batchMoveToMailbox c net emailsPerPage toMailboxId s =
     (case batch_start (\<lambda>ids. Call_batchMoveEmails ids toMailboxId) s of
        None \<Rightarrow> \<lparr> final = s, calls = [], thrown = None \<rparr>
      | Some (s1, call, (selected, emails0, mailboxes0)) \<Rightarrow>
          (case perform c net call of
             Inr u \<Rightarrow>
               (let s2 = s1\<lparr>emails := filter (\<lambda>e. email_id e \<notin> set selected) emails0,
                            selectedEmailIds := [], isLoading := False\<rparr>
                in \<lparr> final = fetchEmails c net emailsPerPage (Some (selectedMailbox s2)) s2,
                     calls = [call], thrown = None \<rparr>)
           | Inl e \<Rightarrow>
               \<lparr> final = s1\<lparr>error := Some (message e), isLoading := False\<rparr>,
                 calls = [call], thrown = None \<rparr>))"

subsection \<open>Reconciliation with the server (lines 141-165 and 741-809)\<close>

text \<open>\<^verbatim>\<open>fetchMailboxes\<close>: the state update once \<^verbatim>\<open>client.getAllMailboxes()\<close> has
  settled, with the \<^verbatim>\<open>catch\<close> branch for a rejection, and the whole operation on the
  client of this repository, whose \<^verbatim>\<open>getAllMailboxes\<close> always resolves.\<close>

definition fetchMailboxes_settled :: "js_error + mailbox list \<Rightarrow> store \<Rightarrow> store" where
  "fetchMailboxes_settled result state =
     (case result of
        Inr mbs \<Rightarrow>
          if selectedMailbox state = [] then
            (case find (\<lambda>m. role m = Some ''inbox'' \<and> \<not> is_shared m) mbs of
               Some inboxMailbox \<Rightarrow>
                 state\<lparr>mailboxes := mbs, selectedMailbox := mailbox_id inboxMailbox,
                       isLoading := False\<rparr>
             | None \<Rightarrow> state\<lparr>mailboxes := mbs, isLoading := False\<rparr>)
          else state\<lparr>mailboxes := mbs, isLoading := False\<rparr>
      | Inl e \<Rightarrow> state\<lparr>error := Some (message e), isLoading := False\<rparr>)"

definition fetchMailboxes :: "jmap_client \<Rightarrow> network \<Rightarrow> store \<Rightarrow> store" where
  "fetchMailboxes c net s =
     fetchMailboxes_settled (Inr (getAllMailboxes c net)) (s\<lparr>isLoading := True, error := None\<rparr>)"

text \<open>\<^verbatim>\<open>refreshCurrentMailbox\<close>: the state update once \<^verbatim>\<open>client.getEmails(...)\<close> has
  settled (its \<^verbatim>\<open>catch\<close> only logs), and the whole operation.\<close>

definition refreshCurrentMailbox_settled :: "js_error + emails_page \<Rightarrow> store \<Rightarrow> store" where
  "refreshCurrentMailbox_settled result state =
     (case result of
        Inr page \<Rightarrow>
          (let currentFirstEmailId = map_option email_id (nth_opt (emails state) 0);
               newFirstEmailId = map_option email_id (nth_opt (page_emails page) 0);
               state1 = (if currentFirstEmailId \<noteq> newFirstEmailId \<and> page_emails page \<noteq> []
                         then state\<lparr>newEmailNotification := nth_opt (page_emails page) 0\<rparr>
                         else state)
           in state1\<lparr>emails := page_emails page,
                     hasMoreEmails := hasMore page,
                     store_totalEmails := page_total page\<rparr>)
      | Inl e \<Rightarrow> state)"

definition refreshCurrentMailbox :: "jmap_client \<Rightarrow> network \<Rightarrow> int \<Rightarrow> store \<Rightarrow> store" where
  "refreshCurrentMailbox c net emailsPerPage s =
     (if selectedMailbox s = [] then s
      else
        (let mailbox = find (\<lambda>mb. mailbox_id mb = selectedMailbox s) (mailboxes s);
             acc = (case mailbox of Some mb \<Rightarrow> if is_shared mb then accountId mb else None
                    | None \<Rightarrow> None);
             jmapMailboxId = or_else (case mailbox of Some mb \<Rightarrow> originalId mb | None \<Rightarrow> None)
                               (selectedMailbox s)
         in refreshCurrentMailbox_settled
              (Inr (getEmails c net (Some jmapMailboxId) acc emailsPerPage 0)) s))"

text \<open>\<^verbatim>\<open>StateChange\<close> of types.ts, with the two tokens the store looks at.\<close>

record account_changes =
  Email_state :: "string option"
  Mailbox_state :: "string option"

record state_change =
  changed :: "account_changes js_object"

text \<open>\<^verbatim>\<open>handleStateChange\<close> (lines 741-770); \<open>now\<close> is \<^verbatim>\<open>Date.now()\<close>.  Both awaited
  operations catch what their client call throws and the client calls themselves
  always resolve, so nothing reaches the \<^verbatim>\<open>catch\<close> of \<^verbatim>\<open>handleStateChange\<close>.\<close>

definition handleStateChange ::
  "int \<Rightarrow> int \<Rightarrow> state_change \<Rightarrow> jmap_client \<Rightarrow> network \<Rightarrow> store \<Rightarrow> store" where
  "handleStateChange now emailsPerPage change c net s =
     (let s1 = s\<lparr>lastPushUpdate := Some now\<rparr>
      in case obj_get (changed change) (client_accountId c) of
           None \<Rightarrow> s1
         | Some accountChanges \<Rightarrow>
             (let s2 = (if truthy_str (Email_state accountChanges) \<noteq> None
                        then refreshCurrentMailbox c net emailsPerPage s1 else s1)
              in if truthy_str (Mailbox_state accountChanges) \<noteq> None
                 then fetchMailboxes c net s2 else s2))"

subsection \<open>Two overlapping invocations of markAsRead\<close>

text \<open>The event loop running two invocations \<^verbatim>\<open>markAsRead(client, i, read)\<close> so that
  the second starts while the first is suspended at its \<^verbatim>\<open>await\<close>: the synchronous
  part of the first, then that of the second on the state the first left, then the
  continuation of the first and, had the second suspended too, that of the second.
  When the first returns without awaiting there is nothing to overlap with.\<close>

definition markAsRead_overlapped ::
  "jmap_client \<Rightarrow> network \<Rightarrow> string \<Rightarrow> bool \<Rightarrow> store \<Rightarrow> outcome" where
  "markAsRead_overlapped c net i read s =
     (case markAsRead_start i read s of
        (s1, None) \<Rightarrow> \<lparr> final = s1, calls = [], thrown = None \<rparr>
      | (s1, Some call1) \<Rightarrow>
          (case markAsRead_start i read s1 of
             (s2, None) \<Rightarrow>
               (let (s3, t) = markAsRead_finish i read (perform c net call1) s2
                in \<lparr> final = s3, calls = [call1], thrown = t \<rparr>)
           | (s2, Some call2) \<Rightarrow>
               (let (s3, t1) = markAsRead_finish i read (perform c net call1) s2;
                    (s4, t2) = markAsRead_finish i read (perform c net call2) s3
                in \<lparr> final = s4, calls = [call1, call2],
                     thrown = (case t1 of Some e \<Rightarrow> Some e | None \<Rightarrow> t2) \<rparr>)))"

subsection \<open>Counter adjustments, as the amended claim C1 words them\<close>

text \<open>These definitions are not translated from the source: they say what it is for
  an email to be a member of a mailbox (its \<^verbatim>\<open>mailboxIds\<close> has the id of the mailbox,
  with the value true), for the mailbox ids to be ordinary (none is the name of a
  property that every object inherits), for a
  mailbox's counters to be non-negative, for a mailbox to have had its email counters
  moved by \<open>dTotal\<close> and \<open>dUnread\<close> and its thread counters by the same amounts,
  stopping at zero, and what the signed deltas of a transition of one email are (an
  unread email counts in the unread counters, a read one does not).\<close>

definition member_of :: "email \<Rightarrow> string \<Rightarrow> bool" where
  "member_of e k = (case mailboxIds e of Some ids \<Rightarrow> obj_get ids k = Some True | None \<Rightarrow> False)"

definition ordinary_ids :: "mailbox list \<Rightarrow> bool" where
  "ordinary_ids mbs = list_all (\<lambda>mb. mailbox_id mb \<notin> set Object_prototype_keys) mbs"

definition nonneg_counters :: "mailbox \<Rightarrow> bool" where
  "nonneg_counters mb =
     (0 \<le> totalEmails mb \<and> 0 \<le> unreadEmails mb \<and> 0 \<le> totalThreads mb \<and> 0 \<le> unreadThreads mb)"

definition adjusted :: "int \<Rightarrow> int \<Rightarrow> mailbox \<Rightarrow> mailbox \<Rightarrow> bool" where
  "adjusted dTotal dUnread mb mb' =
     (mailbox_id mb' = mailbox_id mb \<and>
      totalEmails mb' = max 0 (totalEmails mb + dTotal) \<and>
      unreadEmails mb' = max 0 (unreadEmails mb + dUnread) \<and>
      totalThreads mb' = max 0 (totalThreads mb + dTotal) \<and>
      unreadThreads mb' = max 0 (unreadThreads mb + dUnread))"

definition unread_weight :: "email \<Rightarrow> int" where
  "unread_weight e = (if is_seen e then 0 else 1)"

text \<open>The deltas for a mailbox the email leaves, for one it enters without leaving it,
  and for any other.\<close>

definition total_delta :: "bool \<Rightarrow> bool \<Rightarrow> int" where
  "total_delta leaves enters = (if leaves then - 1 else if enters then 1 else 0)"

definition unread_delta :: "email \<Rightarrow> bool \<Rightarrow> bool \<Rightarrow> int" where
  "unread_delta e leaves enters =
     (if leaves then - unread_weight e else if enters then unread_weight e else 0)"

text \<open>The delta of the unread counters when the seen flag of an email of the mailbox
  goes to \<open>read\<close>: nothing when it is there already.\<close>

definition read_delta :: "bool \<Rightarrow> email \<Rightarrow> mailbox \<Rightarrow> int" where
  "read_delta read e mb =
     (if member_of e (mailbox_id mb) \<and> is_seen e \<noteq> read then (if read then - 1 else 1) else 0)"

text \<open>The emails of the page that are selected, and the members of a mailbox among a
  list of emails.\<close>

definition selected_emails :: "store \<Rightarrow> email list" where
  "selected_emails s = filter (\<lambda>e. email_id e \<in> set (selectedEmailIds s)) (emails s)"

definition members :: "mailbox \<Rightarrow> email list \<Rightarrow> email list" where
  "members mb es = filter (\<lambda>e. member_of e (mailbox_id mb)) es"

section \<open>The settings store (src/stores/settings-store.ts)\<close>

subsection \<open>JavaScript values and JSON\<close>

text \<open>The values \<^verbatim>\<open>JSON.parse\<close> can return, and so the values \<^verbatim>\<open>importSettings\<close> can
  store: a number is finite or, for a literal beyond the range of a double, an
  infinity (NaN is a number a caller of \<^verbatim>\<open>updateSetting\<close> can pass).  A finite number
  is the rational it denotes; the rounding of a literal to the nearest double is not
  modelled.\<close>

datatype js_number = Finite rat | NaN | PosInfinity | NegInfinity

datatype js_value =
    JsNull
  | JsBool bool
  | JsNumber js_number
  | JsString string
  | JsArray "js_value list"
  | JsObject "(string \<times> js_value) list"

text \<open>A JSON text, as its syntax tree.  A string that is not a JSON text has none.\<close>

datatype json =
    JNull
  | JBool bool
  | JNumber rat
  | JString string
  | JArray "json list"
  | JObject "(string \<times> json) list"

text \<open>The least magnitude that rounds to an infinity: the largest double plus half
  the distance to the next power of two.\<close>

definition double_overflow :: rat where
  "double_overflow = 2 ^ 1024 - 2 ^ 970"

definition to_number :: "rat \<Rightarrow> js_number" where
  "to_number q =
     (if double_overflow \<le> q then PosInfinity
      else if q \<le> - double_overflow then NegInfinity
      else Finite q)"

text \<open>The object a list of members denotes: a repeated name overwrites the earlier
  value in place.\<close>

definition object_of :: "(string \<times> 'v) list \<Rightarrow> 'v js_object" where
  "object_of pairs = foldl (\<lambda>obj member. obj_set (fst member) (snd member) obj) [] pairs"

primrec JSON_parse :: "json \<Rightarrow> js_value" where
  "JSON_parse JNull = JsNull"
| "JSON_parse (JBool b) = JsBool b"
| "JSON_parse (JNumber q) = JsNumber (to_number q)"
| "JSON_parse (JString s) = JsString s"
| "JSON_parse (JArray xs) = JsArray (map JSON_parse xs)"
| "JSON_parse (JObject pairs) = JsObject (object_of (map (map_prod id JSON_parse) pairs))"

text \<open>\<^verbatim>\<open>JSON.stringify\<close> on these values: a number that is not finite becomes
  \<^verbatim>\<open>null\<close>.  (The indentation argument only changes white space.)\<close>

primrec JSON_stringify :: "js_value \<Rightarrow> json" where
  "JSON_stringify JsNull = JNull"
| "JSON_stringify (JsBool b) = JBool b"
| "JSON_stringify (JsNumber n) = (case n of Finite q \<Rightarrow> JNumber q | _ \<Rightarrow> JNull)"
| "JSON_stringify (JsString s) = JString s"
| "JSON_stringify (JsArray xs) = JArray (map JSON_stringify xs)"
| "JSON_stringify (JsObject props) = JObject (map (map_prod id JSON_stringify) props)"

subsection \<open>State, export and import\<close>

text \<open>The data part of the store's state is a JavaScript object: its properties in
  order.  \<^verbatim>\<open>DEFAULT_SETTINGS\<close> (lines 52-80) is the initial state.\<close>

type_synonym settings = "js_value js_object"

definition DEFAULT_SETTINGS :: settings where
  "DEFAULT_SETTINGS =
     [(''fontSize'', JsString ''medium''),
      (''listDensity'', JsString ''regular''),
      (''animationsEnabled'', JsBool True),
      (''dateFormat'', JsString ''regional''),
      (''timeFormat'', JsString ''24h''),
      (''firstDayOfWeek'', JsNumber (Finite 1)),
      (''markAsReadDelay'', JsNumber (Finite 0)),
      (''deleteAction'', JsString ''trash''),
      (''showPreview'', JsBool True),
      (''emailsPerPage'', JsNumber (Finite 50)),
      (''externalContentPolicy'', JsString ''ask''),
      (''autoSaveDraftInterval'', JsNumber (Finite 60000)),
      (''sendConfirmation'', JsBool False),
      (''defaultReplyMode'', JsString ''reply''),
      (''sessionTimeout'', JsNumber (Finite 0)),
      (''debugMode'', JsBool False)]"

text \<open>The properties the object literal of \<^verbatim>\<open>exportSettings\<close> (lines 115-132) names,
  in its order.\<close>

definition exported_keys :: "string list" where
  "exported_keys =
     [''fontSize'', ''listDensity'', ''animationsEnabled'', ''dateFormat'', ''timeFormat'',
      ''firstDayOfWeek'', ''markAsReadDelay'', ''deleteAction'', ''showPreview'',
      ''emailsPerPage'', ''externalContentPolicy'', ''autoSaveDraftInterval'',
      ''sendConfirmation'', ''defaultReplyMode'', ''sessionTimeout'', ''debugMode'']"

text \<open>\<^verbatim>\<open>exportSettings\<close>: the JSON text of the object literal.  A property whose value
  is \<^verbatim>\<open>undefined\<close> (the state lacks it) is left out by \<^verbatim>\<open>JSON.stringify\<close>.\<close>

definition exportSettings :: "settings \<Rightarrow> json" where
  "exportSettings state =
     JSON_stringify
       (JsObject (List.map_filter (\<lambda>k. map_option (Pair k) (obj_get state k)) exported_keys))"

text \<open>\<^verbatim>\<open>key in DEFAULT_SETTINGS\<close> holds for the own properties and for the properties
  inherited from \<^verbatim>\<open>Object.prototype\<close>.\<close>

definition key_in_DEFAULT_SETTINGS :: "string \<Rightarrow> bool" where
  "key_in_DEFAULT_SETTINGS key = (obj_has DEFAULT_SETTINGS key \<or> key \<in> set Object_prototype_keys)"

text \<open>\<^verbatim>\<open>set({ [key]: value })\<close>: the store merges with \<^verbatim>\<open>Object.assign\<close>, which writes
  the property, except that assigning \<^verbatim>\<open>__proto__\<close> creates no property.  What the
  \<^verbatim>\<open>persist\<close> middleware then does with the new state (it saves it to the storage of
  the browser) is outside the repository and is taken to succeed.\<close>

definition zustand_set :: "string \<Rightarrow> js_value \<Rightarrow> settings \<Rightarrow> settings" where
  "zustand_set key v state = (if key = ''__proto__'' then state else obj_set key v state)"

subsection \<open>Applying the settings to the document (lines 171-205)\<close>

text \<open>\<^verbatim>\<open>applyFontSize\<close> and \<^verbatim>\<open>applyListDensity\<close> return at once where there is no
  document.  In a document they read \<^verbatim>\<open>sizeMap[size]\<close> and \<^verbatim>\<open>densityMap[density]\<close>,
  which converts the setting to a property key, and write the result to a style
  property of the document element.  The conversion of an object calls its
  \<^verbatim>\<open>toString\<close> and, when that is not callable, its \<^verbatim>\<open>valueOf\<close>; among the values of
  \<^verbatim>\<open>JSON.parse\<close> none is callable and \<^verbatim>\<open>Object.prototype.valueOf\<close> returns the object
  itself, so the conversion throws a TypeError exactly for an object with an own
  property \<^verbatim>\<open>toString\<close>.  An array is converted by \<^verbatim>\<open>Array.prototype.join\<close>, which
  converts each element but \<^verbatim>\<open>null\<close>, so it throws when an element does.  A setting
  the state lacks is \<^verbatim>\<open>undefined\<close>, with the key \<^verbatim>\<open>"undefined"\<close>.
  \<^verbatim>\<open>applyAnimations\<close> only tests the truthiness of the setting.  What the calls
  write to the style is not part of the settings state and is left out: a call is
  its outcome, return or throw (the message of the TypeError is the engine's).\<close>

primrec toPrimitive_throws :: "js_value \<Rightarrow> bool" where
  "toPrimitive_throws JsNull = False"
| "toPrimitive_throws (JsBool b) = False"
| "toPrimitive_throws (JsNumber n) = False"
| "toPrimitive_throws (JsString s) = False"
| "toPrimitive_throws (JsArray xs) = list_ex (\<lambda>b. b) (map toPrimitive_throws xs)"
| "toPrimitive_throws (JsObject props) = obj_has props ''toString''"

definition toPrimitive_TypeError :: js_error where
  "toPrimitive_TypeError = Error ''Cannot convert object to primitive value''"

definition property_access :: "js_value option \<Rightarrow> js_error + unit" where
  "property_access key =
     (case key of
        None \<Rightarrow> Inr ()
      | Some v \<Rightarrow> if toPrimitive_throws v then Inl toPrimitive_TypeError else Inr ())"

definition applyFontSize :: "bool \<Rightarrow> js_value option \<Rightarrow> js_error + unit" where
  "applyFontSize document fontSize = (if \<not> document then Inr () else property_access fontSize)"

definition applyListDensity :: "bool \<Rightarrow> js_value option \<Rightarrow> js_error + unit" where
  "applyListDensity document density = (if \<not> document then Inr () else property_access density)"

definition applyAnimations :: "bool \<Rightarrow> js_value option \<Rightarrow> js_error + unit" where
  "applyAnimations document enabled = Inr ()"

subsection \<open>The actions of the store\<close>

text \<open>\<^verbatim>\<open>updateSetting\<close> (lines 87-104): the setting is stored before it is applied to
  the document, and nothing catches what \<^verbatim>\<open>applyFontSize\<close> or \<^verbatim>\<open>applyListDensity\<close>
  throws.  \<open>document\<close> says whether there is a document
  (\<^verbatim>\<open>typeof document !== 'undefined'\<close>).\<close>

definition updateSetting ::
  "bool \<Rightarrow> string \<Rightarrow> js_value \<Rightarrow> settings \<Rightarrow> js_error option \<times> settings" where
  "updateSetting document key v state =
     (let applied =
            (if key = ''fontSize'' then applyFontSize document (Some v)
             else if key = ''listDensity'' then applyListDensity document (Some v)
             else if key = ''animationsEnabled'' then applyAnimations document (Some v)
             else Inr ())
      in (case applied of Inl e \<Rightarrow> Some e | Inr u \<Rightarrow> None, zustand_set key v state))"

text \<open>\<^verbatim>\<open>resetToDefaults\<close> (lines 106-111); the values it then applies to the document
  are the default strings and the default boolean, for which the calls return.\<close>

definition resetToDefaults :: "settings \<Rightarrow> settings" where
  "resetToDefaults state =
     foldl (\<lambda>st member. zustand_set (fst member) (snd member) st) state DEFAULT_SETTINGS"

text \<open>\<^verbatim>\<open>importSettings\<close> (lines 136-162).  The argument is the syntax tree of the string,
  \<open>None\<close> when \<^verbatim>\<open>JSON.parse\<close> throws.  \<open>import_keys\<close> is the loop over
  \<^verbatim>\<open>Object.keys(settings)\<close> (lines 146-150); the keys of an array are its indices, none
  of which is in \<^verbatim>\<open>DEFAULT_SETTINGS\<close>.  \<open>apply_visual\<close> is the three calls of lines
  153-155 on the state the loop has left.  They run inside the \<^verbatim>\<open>try\<close>: when one
  throws, the \<^verbatim>\<open>catch\<close> returns false, the state staying as the loop has left it.\<close>

definition import_keys :: "js_value js_object \<Rightarrow> settings \<Rightarrow> settings" where
  "import_keys props state =
     foldl (\<lambda>st key.
              if key_in_DEFAULT_SETTINGS key then
                (case obj_get props key of
                   Some v \<Rightarrow> zustand_set key v st
                 | None \<Rightarrow> st)
              else st)
           state (obj_keys props)"

definition apply_visual :: "bool \<Rightarrow> settings \<Rightarrow> js_error + unit" where
  "apply_visual document state =
     (case applyFontSize document (obj_get state ''fontSize'') of
        Inl e \<Rightarrow> Inl e
      | Inr u \<Rightarrow>
          (case applyListDensity document (obj_get state ''listDensity'') of
             Inl e \<Rightarrow> Inl e
           | Inr u \<Rightarrow> applyAnimations document (obj_get state ''animationsEnabled'')))"

definition importSettings :: "bool \<Rightarrow> json option \<Rightarrow> settings \<Rightarrow> bool \<times> settings" where
  "importSettings document json_text state =
     (case json_text of
        None \<Rightarrow> (False, state)
      | Some j \<Rightarrow>
          (case JSON_parse j of
             JsObject props \<Rightarrow>
               (let state' = import_keys props state
                in case apply_visual document state' of
                     Inl e \<Rightarrow> (False, state')
                   | Inr u \<Rightarrow> (True, state'))
           | JsArray xs \<Rightarrow>
               (case apply_visual document state of
                  Inl e \<Rightarrow> (False, state)
                | Inr u \<Rightarrow> (True, state))
           | _ \<Rightarrow> (False, state)))"

subsection \<open>Values that JSON represents\<close>

text \<open>Not from the source: the settings that can be applied to a document, those
  whose font size and list density have a property key (all of them, where there is no
  document).\<close>

definition has_key :: "js_value option \<Rightarrow> bool" where
  "has_key v = (case v of Some x \<Rightarrow> \<not> toPrimitive_throws x | None \<Rightarrow> True)"

definition applicable :: "bool \<Rightarrow> settings \<Rightarrow> bool" where
  "applicable document state =
     (\<not> document \<or> (has_key (obj_get state ''fontSize'') \<and> has_key (obj_get state ''listDensity'')))"

text \<open>Not from the source: the values that survive \<^verbatim>\<open>JSON.stringify\<close> followed by
  \<^verbatim>\<open>JSON.parse\<close>.  Those are the values without NaN and infinities; that a finite
  number lies within the range of a double and that the property names of an object
  differ only says that the value is a JavaScript value at all.  A settings state is
  representable when each exported property is there with such a value.\<close>

primrec representable :: "js_value \<Rightarrow> bool" where
  "representable JsNull = True"
| "representable (JsBool b) = True"
| "representable (JsNumber n) =
     (case n of Finite q \<Rightarrow> - double_overflow < q \<and> q < double_overflow | _ \<Rightarrow> False)"
| "representable (JsString s) = True"
| "representable (JsArray xs) = list_all (\<lambda>b. b) (map representable xs)"
| "representable (JsObject props) =
     (distinct (map fst props) \<and> list_all (\<lambda>b. b) (map snd (map (map_prod id representable) props)))"

definition representable_settings :: "settings \<Rightarrow> bool" where
  "representable_settings state =
     list_all (\<lambda>k. case obj_get state k of Some v \<Rightarrow> representable v | None \<Rightarrow> False)
       exported_keys"

text \<open>Example inputs: a settings file whose session timeout is the literal
  \<^verbatim>\<open>2e308\<close>, the state importing it into the defaults gives, and a file with two of
  the recognized keys, and a file whose font size is the object
  \<^verbatim>\<open>{"toString": 1}\<close>.\<close>

definition ex_overflow_file :: json where
  "ex_overflow_file = JObject [(''sessionTimeout'', JNumber (2 * 10 ^ 308))]"

definition ex_overflow_settings :: settings where
  "ex_overflow_settings = snd (importSettings True (Some ex_overflow_file) DEFAULT_SETTINGS)"

definition ex_partial_file :: json where
  "ex_partial_file = JObject [(''emailsPerPage'', JNumber 25), (''deleteAction'', JString ''permanent'')]"

definition ex_toString_file :: json where
  "ex_toString_file = JObject [(''fontSize'', JObject [(''toString'', JNumber 1)])]"

section \<open>Example data\<close>

text \<open>Three list-view emails of one page: two of thread \<open>t1\<close>, one of thread \<open>t2\<close>.\<close>

definition ex_mail :: "string \<Rightarrow> string \<Rightarrow> bool \<Rightarrow> int \<Rightarrow> string \<Rightarrow> email" where
  "ex_mail i t seen time mb =
     \<lparr> email_id = i, threadId = t, mailboxIds = Some [(mb, True)],
       email_keywords = Some [(''$seen'', seen)], receivedAt = time,
       email_from = Some [\<lparr> addr_name = None, addr_email = ''alice@example.com'' \<rparr>],
       hasAttachment = False \<rparr>"

definition ex_page :: "email list" where
  "ex_page = [ex_mail ''a'' ''t1'' False 100 ''inbox'',
              ex_mail ''b'' ''t2'' True 200 ''inbox'',
              ex_mail ''c'' ''t1'' False 300 ''inbox'']"

text \<open>A client connected as \<open>acct-1\<close> that also sees the shared account \<open>acct-2\<close>, a
  network on which every request fails, and one that answers every request with an
  empty list of method responses.\<close>

definition ex_client :: jmap_client where
  "ex_client =
     \<lparr> apiUrl = ''https://mail.example.com/jmap'', client_accountId = ''acct-1'',
       username = ''alice@example.com'',
       accounts = [(''acct-1'', \<lparr> account_name = Some ''Alice'' \<rparr>),
                   (''acct-2'', \<lparr> account_name = Some ''Team'' \<rparr>)] \<rparr>"

definition net_down :: network where
  "net_down methodCalls = Rejected (Error ''Failed to fetch'')"

definition net_ok :: network where
  "net_ok methodCalls = Ok_json \<lparr> methodResponses = Some [] \<rparr>"

text \<open>A store showing \<open>ex_page\<close> in an inbox of the primary account, next to a trash
  mailbox.\<close>

definition ex_mailbox :: "string \<Rightarrow> string \<Rightarrow> int \<Rightarrow> int \<Rightarrow> int \<Rightarrow> int \<Rightarrow> mailbox" where
  "ex_mailbox i r te ue tt ut =
     \<lparr> mailbox_id = i, originalId = Some i, mailbox_name = i, parentId = None, role = Some r,
       sortOrder = 0, totalEmails = te, unreadEmails = ue, totalThreads = tt, unreadThreads = ut,
       myRights = default_rights, isSubscribed = True, accountId = Some ''acct-1'',
       accountName = Some ''Alice'', isShared = Some False \<rparr>"

definition ex_store :: store where
  "ex_store =
     \<lparr> emails = ex_page,
       mailboxes = [ex_mailbox ''inbox'' ''inbox'' 3 2 2 1, ex_mailbox ''trash'' ''trash'' 0 0 0 0],
       selectedEmail = None, selectedMailbox = ''inbox'', isLoading = False,
       isLoadingEmail = False, isLoadingMore = False, error = None, searchQuery = [],
       quota = None, processingReadStatus = {}, selectedEmailIds = [], hasMoreEmails = False,
       store_totalEmails = 3, isPushConnected = True, lastPushUpdate = None,
       newEmailNotification = None, expandedThreadIds = {}, threadEmailsCache = [],
       isLoadingThread = None \<rparr>"

text \<open>A change descriptor of the poll for the primary account with a new Email and a new
  Mailbox token.\<close>

definition ex_change :: state_change where
  "ex_change =
     \<lparr> changed = [(''acct-1'', \<lparr> Email_state = Some ''e2'', Mailbox_state = Some ''m2'' \<rparr>)] \<rparr>"

text \<open>The five emails of the mailbox of the paging scenario, newest first.\<close>

definition ex_five :: "email list" where
  "ex_five = [ex_mail ''m5'' ''t5'' False 500 ''INBOX'', ex_mail ''m4'' ''t4'' False 400 ''INBOX'',
              ex_mail ''m3'' ''t3'' True 300 ''INBOX'', ex_mail ''m2'' ''t2'' True 200 ''INBOX'',
              ex_mail ''m1'' ''t1'' True 100 ''INBOX'']"

text \<open>A network on which the query of \<^verbatim>\<open>getEmails\<close> succeeds, reporting a total of
  five, and the \<^verbatim>\<open>Email/get\<close> of the same batch fails with a method-level error.\<close>

definition net_get_fails :: network where
  "net_get_fails methodCalls =
     Ok_json \<lparr> methodResponses = Some
       [(''Email/query'', empty_result\<lparr>res_total := Some 5\<rparr>), (''error'', empty_result)] \<rparr>"

text \<open>A network that answers \<^verbatim>\<open>Mailbox/get\<close> for any account with one mailbox
  \<open>INBOX\<close> below a parent \<open>ROOT\<close>, and every other request with one email that is in
  \<open>INBOX\<close>.\<close>

definition ex_raw_inbox :: jmap_mailbox where
  "ex_raw_inbox =
     \<lparr> raw_id = ''INBOX'', raw_name = ''Inbox'', raw_parentId = Some ''ROOT'',
       raw_role = Some ''inbox'', raw_totalEmails = Some 5, raw_unreadEmails = Some 2,
       raw_totalThreads = Some 5, raw_unreadThreads = Some 2, raw_sortOrder = None,
       raw_isSubscribed = None, raw_myRights = None \<rparr>"

definition net_shared :: network where
  "net_shared methodCalls =
     (case methodCalls of
        [Mailbox_get acc] \<Rightarrow>
          Ok_json \<lparr> methodResponses = Some
            [(''Mailbox/get'', empty_result\<lparr>mailbox_list := Some [ex_raw_inbox]\<rparr>)] \<rparr>
      | [Email_query acc inMailbox limit position, Email_get_resultOf acc'] \<Rightarrow>
          Ok_json \<lparr> methodResponses = Some
            [(''Email/query'', empty_result),
             (''Email/get'', empty_result\<lparr>email_list := Some [ex_mail ''m1'' ''t1'' True 100 ''INBOX'']\<rparr>)] \<rparr>
      | _ \<Rightarrow>
          Ok_json \<lparr> methodResponses = Some
            [(''Email/get'', empty_result\<lparr>email_list := Some [ex_mail ''m1'' ''t1'' True 100 ''INBOX'']\<rparr>)] \<rparr>)"

text \<open>A server that refuses an update: the request succeeds and its \<^verbatim>\<open>Email/set\<close>
  response lists the email \<open>a\<close> under \<^verbatim>\<open>notUpdated\<close>.\<close>

definition net_not_updated :: network where
  "net_not_updated methodCalls =
     Ok_json \<lparr> methodResponses = Some
       [(''Email/set'',
         empty_result\<lparr>notUpdated :=
           Some [(''a'', \<lparr> err_type = Some ''forbidden'',
                          err_description = Some ''The mailbox is read-only'' \<rparr>)]\<rparr>)] \<rparr>"

text \<open>The store after \<open>a\<close> has been marked as read in \<open>ex_store\<close>, of whose thread
  \<open>t1\<close> the email \<open>c\<close> is still unread.\<close>

definition ex_store_a_read :: store where
  "ex_store_a_read = final (markAsRead ex_client net_ok ''a'' True ex_store)"

text \<open>A server with a drafts mailbox that refuses to create an email: the
  \<^verbatim>\<open>Email/set\<close> response has a \<^verbatim>\<open>notCreated\<close> map.\<close>

definition net_not_created :: network where
  "net_not_created methodCalls =
     (case methodCalls of
        [Mailbox_get acc] \<Rightarrow>
          Ok_json \<lparr> methodResponses = Some
            [(''Mailbox/get'',
              empty_result\<lparr>mailbox_list :=
                Some [ex_raw_inbox\<lparr>raw_id := ''DRAFTS'', raw_role := Some ''drafts''\<rparr>]\<rparr>)] \<rparr>
      | _ \<Rightarrow>
          Ok_json \<lparr> methodResponses = Some
            [(''Email/set'',
              empty_result\<lparr>notCreated :=
                Some [(''draft-7'', \<lparr> err_type = Some ''overQuota'',
                                     err_description = Some ''Quota exceeded'' \<rparr>)]\<rparr>)] \<rparr>)"

section \<open>Association lists and the example data\<close>

lemma update_fresh: "k \<notin> fst ` set m \<Longrightarrow> AList.update k v m = m @ [(k, v)]"
  by (induction m) auto

lemma ex_store_find:
  "find_email ''a'' ex_store = Some (ex_mail ''a'' ''t1'' False 100 ''inbox'')"
  "find_email ''b'' ex_store = Some (ex_mail ''b'' ''t2'' True 200 ''inbox'')"
  "find_email ''c'' ex_store = Some (ex_mail ''c'' ''t1'' False 300 ''inbox'')"
  by (simp_all add: find_email_def ex_store_def ex_page_def ex_mail_def)

lemma ex_mail_seen [simp]: "is_seen (ex_mail i t seen time mb) = seen"
  by (simp add: is_seen_def keyword_set_def ex_mail_def obj_get_def)


section \<open>Thread grouping is a partition\<close>

lemma threadMap_push_Nil: "threadMap_push [] e = [(threadId e, [e])]"
  by (simp add: threadMap_push_def obj_has_def obj_set_def obj_get_def)

lemma threadMap_push_Cons:
  "threadMap_push ((k, es) # tm) e =
     (if k = threadId e then (k, es @ [e]) # tm else (k, es) # threadMap_push tm e)"
  by (auto simp: threadMap_push_def obj_has_def obj_set_def obj_get_def Let_def
      split: option.splits)

lemma threadMap_push_keys:
  "fst ` set (threadMap_push tm e) = insert (threadId e) (fst ` set tm)"
proof (induction tm)
  case Nil
  show ?case by (simp add: threadMap_push_Nil)
next
  case (Cons p tm)
  obtain k es where p: "p = (k, es)" by (cases p)
  show ?case
  proof (cases "k = threadId e")
    case True
    then show ?thesis by (simp add: p threadMap_push_Cons insert_absorb)
  next
    case False
    then show ?thesis by (simp add: p threadMap_push_Cons Cons.IH insert_commute)
  qed
qed

lemma threadMap_push_distinct:
  "distinct (map fst tm) \<Longrightarrow> distinct (map fst (threadMap_push tm e))"
proof (induction tm)
  case Nil
  show ?case by (simp add: threadMap_push_Nil)
next
  case (Cons p tm)
  obtain k es where p: "p = (k, es)" by (cases p)
  from Cons have d: "distinct (map fst (threadMap_push tm e))" and k: "k \<notin> fst ` set tm"
    by (auto simp: p)
  have "k \<noteq> threadId e \<Longrightarrow> k \<notin> fst ` set (threadMap_push tm e)"
    using k by (simp add: threadMap_push_keys)
  with d Cons.prems show ?case
    by (auto simp: p threadMap_push_Cons)
qed

lemma threadMap_push_filter:
  "map_of (threadMap_push tm e) k =
     (if k = threadId e then Some ((case map_of tm k of None \<Rightarrow> [] | Some es \<Rightarrow> es) @ [e])
      else map_of tm k)"
  by (induction tm) (auto simp: threadMap_push_Nil threadMap_push_Cons)

lemma foldl_threadMap_push_distinct:
  "distinct (map fst tm) \<Longrightarrow> distinct (map fst (foldl threadMap_push tm es))"
  by (induction es arbitrary: tm) (simp_all add: threadMap_push_distinct)

lemma foldl_threadMap_push_lookup:
  "map_of (foldl threadMap_push tm es) k =
     (let old = (case map_of tm k of None \<Rightarrow> [] | Some xs \<Rightarrow> xs);
          new = filter (\<lambda>e. threadId e = k) es
      in if map_of tm k = None \<and> new = [] then None else Some (old @ new))"
proof (induction es arbitrary: tm)
  case Nil
  show ?case by (simp split: option.splits)
next
  case (Cons e es)
  show ?case
    by (simp add: Cons.IH threadMap_push_filter Let_def split: option.splits)
qed

lemma threadMap_entries:
  assumes "(k, xs) \<in> set (foldl threadMap_push [] es)"
  shows "xs = filter (\<lambda>e. threadId e = k) es" and "xs \<noteq> []"
proof -
  have d: "distinct (map fst (foldl threadMap_push [] es))"
    by (rule foldl_threadMap_push_distinct) simp
  with assms have "map_of (foldl threadMap_push [] es) k = Some xs"
    by simp
  then show "xs = filter (\<lambda>e. threadId e = k) es" and "xs \<noteq> []"
    by (auto simp: foldl_threadMap_push_lookup Let_def split: if_splits)
qed

lemma foldl_threadMap_push_keys:
  "fst ` set (foldl threadMap_push tm es) = fst ` set tm \<union> threadId ` set es"
  by (induction es arbitrary: tm) (simp_all add: threadMap_push_keys)

lemma foldl_threadMap_push_concat:
  "mset (concat (map snd (threadMap_push tm e))) = mset (concat (map snd tm)) + {#e#}"
  by (induction tm) (auto simp: threadMap_push_Nil threadMap_push_Cons)

lemma foldl_threadMap_push_mset:
  "mset (concat (map snd (foldl threadMap_push tm es))) = mset (concat (map snd tm)) + mset es"
  by (induction es arbitrary: tm) (simp_all add: foldl_threadMap_push_concat)

lemma groupEmailsByThread_alt:
  "groupEmailsByThread input =
     map (\<lambda>(tid, threadEmails). make_group tid (sort_newest_first threadEmails))
         (foldl threadMap_push [] input)"
  by (simp add: groupEmailsByThread_def)

lemma make_group_sel [simp]:
  "tg_threadId (make_group tid es) = tid"
  "tg_emails (make_group tid es) = es"
  "emailCount (make_group tid es) = length es"
  by (simp_all add: make_group_def)

lemma mset_sort_newest_first [simp]: "mset (sort_newest_first es) = mset es"
  by (simp add: sort_newest_first_def)

lemma length_sort_newest_first [simp]: "length (sort_newest_first es) = length es"
  by (simp add: sort_newest_first_def)

lemma group_threadIds:
  "map tg_threadId (groupEmailsByThread input) = map fst (foldl threadMap_push [] input)"
  by (simp add: groupEmailsByThread_alt case_prod_unfold comp_def)

lemma group_emailCounts:
  "sum_list (map emailCount (groupEmailsByThread input)) = length input"
proof -
  have "sum_list (map emailCount (groupEmailsByThread input)) =
        sum_list (map (\<lambda>p. length (snd p)) (foldl threadMap_push [] input))"
    by (simp add: groupEmailsByThread_alt case_prod_unfold comp_def)
  also have "\<dots> = length (concat (map snd (foldl threadMap_push [] input)))"
    by (simp add: length_concat comp_def)
  also have "\<dots> = size (mset (concat (map snd (foldl threadMap_push [] input))))"
    by simp
  also have "\<dots> = length input"
    by (simp only: foldl_threadMap_push_mset) simp
  finally show ?thesis .
qed

lemma group_members:
  assumes "g \<in> set (groupEmailsByThread input)"
  shows "tg_emails g \<noteq> []"
    and "mset (tg_emails g) = mset (filter (\<lambda>e. threadId e = tg_threadId g) input)"
    and "emailCount g = length (tg_emails g)"
proof -
  from assms obtain k xs where kx: "(k, xs) \<in> set (foldl threadMap_push [] input)"
    and g: "g = make_group k (sort_newest_first xs)"
    by (auto simp: groupEmailsByThread_alt)
  from threadMap_entries [OF kx] have xs: "xs = filter (\<lambda>e. threadId e = k) input" "xs \<noteq> []"
    by simp_all
  from xs(2) have "length (sort_newest_first xs) \<noteq> 0" by simp
  then show "tg_emails g \<noteq> []" by (simp add: g del: length_sort_newest_first)
  show "mset (tg_emails g) = mset (filter (\<lambda>e. threadId e = tg_threadId g) input)"
    using xs(1) by (simp add: g)
  show "emailCount g = length (tg_emails g)" by (simp add: g)
qed

lemma group_exists:
  assumes "e \<in> set input"
  shows "\<exists>g \<in> set (groupEmailsByThread input). tg_threadId g = threadId e"
proof -
  from assms have "threadId e \<in> fst ` set (foldl threadMap_push [] input)"
    by (simp add: foldl_threadMap_push_keys)
  then have "threadId e \<in> set (map tg_threadId (groupEmailsByThread input))"
    by (simp only: group_threadIds) simp
  then show ?thesis by auto
qed

text \<open>
  Claim C7.  \<^verbatim>\<open>groupEmailsByThread\<close> partitions its input: the groups have pairwise
  different thread ids, the members of a group are exactly the input emails of that
  thread id (with their multiplicities), every input email's thread has its group, the
  groups together hold the input exactly once, and the \<^verbatim>\<open>emailCount\<close>s add up to the
  length of the input.
\<close>

theorem groupEmailsByThread_partition:
  "distinct (map tg_threadId (groupEmailsByThread input)) \<and>
   (\<forall>g \<in> set (groupEmailsByThread input).
      tg_emails g \<noteq> [] \<and>
      mset (tg_emails g) = mset (filter (\<lambda>e. threadId e = tg_threadId g) input) \<and>
      emailCount g = length (tg_emails g)) \<and>
   (\<forall>e \<in> set input. \<exists>g \<in> set (groupEmailsByThread input). tg_threadId g = threadId e) \<and>
   mset (concat (map tg_emails (groupEmailsByThread input))) = mset input \<and>
   sum_list (map emailCount (groupEmailsByThread input)) = length input"
proof (intro conjI ballI)
  show "distinct (map tg_threadId (groupEmailsByThread input))"
    by (simp only: group_threadIds) (rule foldl_threadMap_push_distinct, simp)
next
  have "mset (concat (map tg_emails (groupEmailsByThread input))) =
        mset (concat (map snd (foldl threadMap_push [] input)))"
    by (simp add: groupEmailsByThread_alt mset_concat comp_def case_prod_unfold)
  then show "mset (concat (map tg_emails (groupEmailsByThread input))) = mset input"
    by (simp only: foldl_threadMap_push_mset) simp
qed (simp_all add: group_members group_exists group_emailCounts)

lemma ex_groups:
  "groupEmailsByThread ex_page =
     [make_group ''t1'' [ex_mail ''c'' ''t1'' False 300 ''inbox'', ex_mail ''a'' ''t1'' False 100 ''inbox''],
      make_group ''t2'' [ex_mail ''b'' ''t2'' True 200 ''inbox'']]"
  by (simp add: groupEmailsByThread_def ex_page_def threadMap_push_def obj_has_def obj_set_def
      obj_get_def sort_newest_first_def ex_mail_def Let_def)

theorem groupEmailsByThread_partition_witness:
  "map tg_threadId (groupEmailsByThread ex_page) = [''t1'', ''t2''] \<and>
   map (\<lambda>g. map email_id (tg_emails g)) (groupEmailsByThread ex_page) = [[''c'', ''a''], [''b'']] \<and>
   distinct (map tg_threadId (groupEmailsByThread ex_page)) \<and>
   mset (concat (map tg_emails (groupEmailsByThread ex_page))) = mset ex_page \<and>
   sum_list (map emailCount (groupEmailsByThread ex_page)) = 3"
  using groupEmailsByThread_partition [of ex_page]
  by (simp add: ex_groups) (simp add: ex_page_def ex_mail_def)

section \<open>Merging fetched thread emails is idempotent\<close>

lemma keyed_by_id_update:
  assumes "keyed_by_id m"
  shows "keyed_by_id (AList.update (email_id e) e m)"
proof -
  have "list_all (\<lambda>p. fst p = email_id (snd p)) m \<Longrightarrow>
        list_all (\<lambda>p. fst p = email_id (snd p)) (AList.update (email_id e) e m)"
    by (induction m) auto
  with assms show ?thesis
    by (simp add: keyed_by_id_def distinct_update)
qed

lemma keyed_by_id_ids: "keyed_by_id m \<Longrightarrow> map email_id (obj_values m) = map fst m"
  by (induction m) (auto simp: keyed_by_id_def obj_values_def)

lemma foldl_emailMap_set_inv:
  "keyed_by_id m \<Longrightarrow> keyed_by_id (foldl emailMap_set m es)"
  by (induction es arbitrary: m) (simp_all add: emailMap_set_def obj_set_def keyed_by_id_update)

lemma foldl_emailMap_add_new_inv:
  "keyed_by_id m \<Longrightarrow> keyed_by_id (foldl emailMap_add_new m es)"
  by (induction es arbitrary: m) (simp_all add: emailMap_add_new_def obj_set_def keyed_by_id_update)

lemma emailMap_add_new_keys:
  "fst ` set (emailMap_add_new m e) = insert (email_id e) (fst ` set m)"
  by (auto simp: emailMap_add_new_def obj_set_def obj_has_def dom_update)

lemma foldl_emailMap_add_new_keys:
  "fst ` set (foldl emailMap_add_new m es) = fst ` set m \<union> email_id ` set es"
  by (induction es arbitrary: m) (simp_all add: emailMap_add_new_keys)

lemma merged_emailMap_inv:
  "keyed_by_id (merged_emailMap ex f)"
  "email_id ` set f \<subseteq> fst ` set (merged_emailMap ex f)"
proof -
  have "keyed_by_id (foldl emailMap_set [] ex)"
    by (rule foldl_emailMap_set_inv) (simp add: keyed_by_id_def)
  then show "keyed_by_id (merged_emailMap ex f)"
    by (simp add: merged_emailMap_def foldl_emailMap_add_new_inv)
  show "email_id ` set f \<subseteq> fst ` set (merged_emailMap ex f)"
    by (simp add: merged_emailMap_def foldl_emailMap_add_new_keys)
qed

lemma foldl_emailMap_set_distinct:
  "distinct (map email_id xs) \<Longrightarrow> email_id ` set xs \<inter> fst ` set m = {} \<Longrightarrow>
   foldl emailMap_set m xs = m @ map (\<lambda>e. (email_id e, e)) xs"
proof (induction xs arbitrary: m)
  case Nil
  show ?case by simp
next
  case (Cons x xs)
  from Cons.prems have fresh: "email_id x \<notin> fst ` set m" by auto
  then have step: "emailMap_set m x = m @ [(email_id x, x)]"
    by (simp add: emailMap_set_def obj_set_def update_fresh)
  from Cons.prems have "email_id ` set xs \<inter> fst ` set (m @ [(email_id x, x)]) = {}"
    by auto
  with Cons.prems Cons.IH [of "m @ [(email_id x, x)]"] show ?case
    by (simp add: step)
qed

lemma foldl_emailMap_add_new_known:
  "email_id ` set f \<subseteq> fst ` set m \<Longrightarrow> foldl emailMap_add_new m f = m"
  by (induction f) (auto simp: emailMap_add_new_def obj_has_def)

lemma sort_newest_first_idem: "sort_newest_first (sort_newest_first es) = sort_newest_first es"
  by (simp add: sort_newest_first_def sort_key_id_if_sorted)

lemma set_sort_newest_first [simp]: "set (sort_newest_first es) = set es"
  by (simp add: sort_newest_first_def)

lemma merged_again:
  fixes ex f :: "email list"
  defines "merged \<equiv> sort_newest_first (obj_values (merged_emailMap ex f))"
  shows "obj_values (merged_emailMap merged f) = merged"
proof -
  let ?A = "merged_emailMap ex f"
  have ids: "map email_id (obj_values ?A) = map fst ?A"
    by (rule keyed_by_id_ids) (rule merged_emailMap_inv)
  have "mset (map email_id merged) = mset (map email_id (obj_values ?A))"
    by (simp add: merged_def)
  moreover have "distinct (map email_id (obj_values ?A))"
    using merged_emailMap_inv(1) [of ex f] by (simp only: ids keyed_by_id_def)
  ultimately have d: "distinct (map email_id merged)"
    by (metis mset_eq_imp_distinct_iff)
  have "email_id ` set merged = fst ` set ?A"
  proof -
    have "email_id ` set merged = set (map email_id (obj_values ?A))"
      by (simp add: merged_def)
    then show ?thesis by (simp only: ids) simp
  qed
  with merged_emailMap_inv(2) [of f ex] have known: "email_id ` set f \<subseteq> email_id ` set merged"
    by simp
  have first: "foldl emailMap_set [] merged = map (\<lambda>e. (email_id e, e)) merged"
    using foldl_emailMap_set_distinct [OF d, of "[]"] by simp
  have "email_id ` set f \<subseteq> fst ` set (map (\<lambda>e. (email_id e, e)) merged)"
    using known by (simp add: image_image)
  then have "merged_emailMap merged f = map (\<lambda>e. (email_id e, e)) merged"
    by (simp add: merged_emailMap_def first foldl_emailMap_add_new_known)
  then show ?thesis
    by (simp add: obj_values_def comp_def)
qed

text \<open>
  Claim C8.  Merging the same fetched list into a thread group a second time changes
  nothing: the whole group (thread id, member list and its order, latest email,
  participants, flags and count) is the one the first merge produced.
\<close>

theorem mergeThreadEmails_idempotent:
  "mergeThreadEmails (mergeThreadEmails g f) f = mergeThreadEmails g f"
  by (simp add: mergeThreadEmails_def merged_again sort_newest_first_idem)

section \<open>Operations on an email that is not in the list\<close>

lemma find_email_absent: "i \<notin> email_id ` set (emails s) \<Longrightarrow> find_email i s = None"
  by (auto simp: find_email_def find_None_iff)

text \<open>
  Claim C10.  For an email id that is not in the store's current list, \<^verbatim>\<open>markAsRead\<close>,
  \<^verbatim>\<open>toggleStar\<close>, \<^verbatim>\<open>deleteEmail\<close> and \<^verbatim>\<open>moveToMailbox\<close> return at once: the
  store is left as it was (every field, the error included), no call is made on the
  client and nothing is thrown, whatever the client, the network and the other
  arguments are.
\<close>

theorem absent_email_noop:
  assumes "i \<notin> email_id ` set (emails s)"
  shows "markAsRead c net i read s = \<lparr> final = s, calls = [], thrown = None \<rparr> \<and>
         toggleStar c net i s = \<lparr> final = s, calls = [], thrown = None \<rparr> \<and>
         deleteEmail c net action i s = \<lparr> final = s, calls = [], thrown = None \<rparr> \<and>
         moveToMailbox c net i destinationMailboxId s = \<lparr> final = s, calls = [], thrown = None \<rparr>"
proof -
  from assms have none: "find_email i s = None" by (rule find_email_absent)
  have "markAsRead_start i read s = (s, None)"
    by (simp add: markAsRead_start_def none)
  then have 1: "markAsRead c net i read s = \<lparr> final = s, calls = [], thrown = None \<rparr>"
    by (simp add: markAsRead_def)
  have 2: "toggleStar c net i s = \<lparr> final = s, calls = [], thrown = None \<rparr>"
    by (simp add: toggleStar_def toggleStar_start_def none)
  have 3: "deleteEmail c net action i s = \<lparr> final = s, calls = [], thrown = None \<rparr>"
    by (simp add: deleteEmail_def deleteEmail_start_def none)
  have 4: "moveToMailbox c net i destinationMailboxId s = \<lparr> final = s, calls = [], thrown = None \<rparr>"
    by (simp add: moveToMailbox_def moveToMailbox_start_def none)
  from 1 2 3 4 show ?thesis by simp
qed

lemma ex_store_ids: "email_id ` set (emails ex_store) = {''a'', ''b'', ''c''}"
  by (auto simp: ex_store_def ex_page_def ex_mail_def)

theorem absent_email_noop_witness:
  "''zz'' \<notin> email_id ` set (emails ex_store) \<and>
   markAsRead ex_client net_down ''zz'' True ex_store = \<lparr> final = ex_store, calls = [], thrown = None \<rparr> \<and>
   toggleStar ex_client net_down ''zz'' ex_store = \<lparr> final = ex_store, calls = [], thrown = None \<rparr> \<and>
   deleteEmail ex_client net_down ''trash'' ''zz'' ex_store = \<lparr> final = ex_store, calls = [], thrown = None \<rparr> \<and>
   moveToMailbox ex_client net_down ''zz'' ''trash'' ex_store = \<lparr> final = ex_store, calls = [], thrown = None \<rparr>"
proof -
  have h: "''zz'' \<notin> email_id ` set (emails ex_store)"
    by (simp add: ex_store_ids)
  from absent_email_noop [OF h, of ex_client net_down True "''trash''" "''trash''"] h
  show ?thesis by simp
qed

section \<open>markAsRead: no call when the flag is right, one call for overlapping invocations\<close>

lemma markAsRead_start_suspended:
  assumes "markAsRead_start i read s = (s1, Some call)"
  shows "processingKey i read \<in> processingReadStatus s1"
    and "call = Call_markAsRead i read (shared_accountId s)"
  using assms
  by (auto simp: markAsRead_start_def Let_def shared_accountId_def
      split: if_splits option.splits)

lemma markAsRead_start_guarded:
  "processingKey i read \<in> processingReadStatus s \<Longrightarrow> markAsRead_start i read s = (s, None)"
  by (simp add: markAsRead_start_def)

lemma markAsRead_overlapped_eq:
  "markAsRead_overlapped c net i read s = markAsRead c net i read s"
proof (cases "markAsRead_start i read s")
  case (Pair s1 r)
  show ?thesis
  proof (cases r)
    case None
    with Pair show ?thesis
      by (simp add: markAsRead_overlapped_def markAsRead_def)
  next
    case (Some call)
    with Pair have "markAsRead_start i read s1 = (s1, None)"
      by (auto intro: markAsRead_start_guarded dest: markAsRead_start_suspended(1))
    with Pair Some show ?thesis
      by (simp add: markAsRead_overlapped_def markAsRead_def)
  qed
qed

lemma markAsRead_calls:
  "calls (markAsRead c net i read s) =
     (case find_email i s of
        Some e \<Rightarrow>
          if is_seen e \<noteq> read \<and> processingKey i read \<notin> processingReadStatus s
          then [Call_markAsRead i read (shared_accountId s)] else []
      | None \<Rightarrow> [])"
  by (auto simp: markAsRead_def markAsRead_start_def Let_def shared_accountId_def
      split: option.splits prod.splits)

lemma markAsRead_already:
  assumes "find_email i s = Some e" "is_seen e = read"
  shows "markAsRead c net i read s = \<lparr> final = s, calls = [], thrown = None \<rparr>"
  using assms by (simp add: markAsRead_def markAsRead_start_def)

text \<open>
  Claim C2.  (1) When the email with id \<open>i\<close> is in the list and its seen flag already
  equals the target, \<^verbatim>\<open>markAsRead\<close> returns without a call on the client, without
  changing the state and without throwing.  (2) When a second invocation with the same
  id and target starts while the first is suspended at its client call, the run issues
  the same calls, leaves the same state and throws the same as the single invocation
  does; that is at most one call, and exactly one, the call of the first invocation,
  when the email is in the list with the other flag and no such call was in flight.
  A call on the client is what the claim counts as a network call.
\<close>

theorem markAsRead_idempotent_and_deduplicated:
  "(\<forall>e. find_email i s = Some e \<and> is_seen e = read \<longrightarrow>
        markAsRead c net i read s = \<lparr> final = s, calls = [], thrown = None \<rparr>) \<and>
   markAsRead_overlapped c net i read s = markAsRead c net i read s \<and>
   length (calls (markAsRead_overlapped c net i read s)) \<le> 1 \<and>
   (\<forall>e. find_email i s = Some e \<and> is_seen e \<noteq> read \<and>
        processingKey i read \<notin> processingReadStatus s \<longrightarrow>
        calls (markAsRead_overlapped c net i read s) = [Call_markAsRead i read (shared_accountId s)])"
proof (intro conjI allI impI)
  fix e assume "find_email i s = Some e \<and> is_seen e = read"
  then show "markAsRead c net i read s = \<lparr> final = s, calls = [], thrown = None \<rparr>"
    by (simp add: markAsRead_already)
next
  show "markAsRead_overlapped c net i read s = markAsRead c net i read s"
    by (rule markAsRead_overlapped_eq)
next
  show "length (calls (markAsRead_overlapped c net i read s)) \<le> 1"
    by (simp add: markAsRead_overlapped_eq markAsRead_calls split: option.splits)
next
  fix e
  assume "find_email i s = Some e \<and> is_seen e \<noteq> read \<and>
          processingKey i read \<notin> processingReadStatus s"
  then show "calls (markAsRead_overlapped c net i read s) =
             [Call_markAsRead i read (shared_accountId s)]"
    by (simp add: markAsRead_overlapped_eq markAsRead_calls)
qed

theorem markAsRead_idempotent_and_deduplicated_witness:
  "find_email ''b'' ex_store = Some (ex_mail ''b'' ''t2'' True 200 ''inbox'') \<and>
   is_seen (ex_mail ''b'' ''t2'' True 200 ''inbox'') = True \<and>
   markAsRead ex_client net_ok ''b'' True ex_store = \<lparr> final = ex_store, calls = [], thrown = None \<rparr> \<and>
   find_email ''a'' ex_store = Some (ex_mail ''a'' ''t1'' False 100 ''inbox'') \<and>
   is_seen (ex_mail ''a'' ''t1'' False 100 ''inbox'') \<noteq> True \<and>
   processingKey ''a'' True \<notin> processingReadStatus ex_store \<and>
   markAsRead_overlapped ex_client net_ok ''a'' True ex_store =
     markAsRead ex_client net_ok ''a'' True ex_store \<and>
   calls (markAsRead_overlapped ex_client net_ok ''a'' True ex_store) =
     [Call_markAsRead ''a'' True None]"
proof -
  have key: "processingKey ''a'' True \<notin> processingReadStatus ex_store"
    by (simp add: ex_store_def)
  have acc: "shared_accountId ex_store = None"
    by (simp add: shared_accountId_def ex_store_def ex_mailbox_def is_shared_def)
  note b = markAsRead_idempotent_and_deduplicated
         [where i = "''b''" and s = ex_store and read = True and c = ex_client and net = net_ok]
  note a = markAsRead_idempotent_and_deduplicated
         [where i = "''a''" and s = ex_store and read = True and c = ex_client and net = net_ok]
  from b have b1: "markAsRead ex_client net_ok ''b'' True ex_store =
                     \<lparr> final = ex_store, calls = [], thrown = None \<rparr>"
    by (simp add: ex_store_find)
  from a have a2: "markAsRead_overlapped ex_client net_ok ''a'' True ex_store =
                     markAsRead ex_client net_ok ''a'' True ex_store"
    by simp
  from a key acc have a4: "calls (markAsRead_overlapped ex_client net_ok ''a'' True ex_store) =
                     [Call_markAsRead ''a'' True None]"
    by (auto simp: ex_store_find)
  have rest: "find_email ''b'' ex_store = Some (ex_mail ''b'' ''t2'' True 200 ''inbox'')"
    "is_seen (ex_mail ''b'' ''t2'' True 200 ''inbox'') = True"
    "find_email ''a'' ex_store = Some (ex_mail ''a'' ''t1'' False 100 ''inbox'')"
    "is_seen (ex_mail ''a'' ''t1'' False 100 ''inbox'') \<noteq> True"
    by (simp_all add: ex_store_find)
  show ?thesis
    by (intro conjI) (fact b1 a2 a4 key rest)+
qed

section \<open>Background refreshes leave the error state alone\<close>

lemma refreshCurrentMailbox_error:
  "error (refreshCurrentMailbox c net pageSize s) = error s"
  by (simp add: refreshCurrentMailbox_def refreshCurrentMailbox_settled_def Let_def)

lemma fetchMailboxes_error: "error (fetchMailboxes c net s) = None"
  by (simp add: fetchMailboxes_def fetchMailboxes_settled_def split: option.splits)

lemma handleStateChange_error_eq:
  "error (handleStateChange now pageSize change c net s) =
     (case obj_get (changed change) (client_accountId c) of
        None \<Rightarrow> error s
      | Some accountChanges \<Rightarrow>
          if truthy_str (Mailbox_state accountChanges) \<noteq> None then None else error s)"
  by (simp add: handleStateChange_def Let_def refreshCurrentMailbox_error fetchMailboxes_error
      split: option.splits)

text \<open>
  Claim C5.  Whatever the change descriptor, the client and the network are (every
  request may fail), \<^verbatim>\<open>handleStateChange\<close> does not set the store's error: an error
  field that is null stays null, and in general the field afterwards is null (a changed
  Mailbox token: \<^verbatim>\<open>fetchMailboxes\<close> clears it and \<^verbatim>\<open>getAllMailboxes\<close> never rejects)
  or what it was before (a changed Email token alone, or no change for the account).
\<close>

theorem handleStateChange_never_sets_error:
  "(error s = None \<longrightarrow> error (handleStateChange now pageSize change c net s) = None) \<and>
   (error (handleStateChange now pageSize change c net s) = None \<or>
    error (handleStateChange now pageSize change c net s) = error s)"
  by (simp add: handleStateChange_error_eq split: option.splits)

theorem handleStateChange_never_sets_error_witness:
  "error ex_store = None \<and>
   error (handleStateChange 1700000000000 50 ex_change ex_client net_down ex_store) = None \<and>
   mailboxes (handleStateChange 1700000000000 50 ex_change ex_client net_down ex_store) = [] \<and>
   emails (handleStateChange 1700000000000 50 ex_change ex_client net_down ex_store) = []"
proof -
  have h: "error ex_store = None" by (simp add: ex_store_def)
  have req: "\<And>calls. request ex_client net_down calls = Inl (Error ''Failed to fetch'')"
    by (simp add: request_def ex_client_def net_down_def)
  have raw: "\<And>acc. account_raw_mailboxes ex_client net_down acc = []"
    by (simp add: account_raw_mailboxes_def req)
  have mbs: "getAllMailboxes ex_client net_down = []"
    by (simp add: getAllMailboxes_def raw Let_def) (simp add: ex_client_def obj_keys_def)
  have page: "\<And>m a. getEmails ex_client net_down m a 50 0 = empty_page"
    by (simp add: getEmails_def req)
  have ch: "obj_get (changed ex_change) (client_accountId ex_client) =
              Some \<lparr> Email_state = Some ''e2'', Mailbox_state = Some ''m2'' \<rparr>"
    by (simp add: ex_change_def ex_client_def obj_get_def)
  have sel: "selectedMailbox ex_store = ''inbox''" by (simp add: ex_store_def)
  from handleStateChange_never_sets_error
         [where s = ex_store and now = 1700000000000 and pageSize = 50
            and change = ex_change and c = ex_client and net = net_down] h
  have e: "error (handleStateChange 1700000000000 50 ex_change ex_client net_down ex_store) = None"
    by simp
  have m: "mailboxes (handleStateChange 1700000000000 50 ex_change ex_client net_down ex_store) = []"
    by (simp add: handleStateChange_def ch truthy_str_def fetchMailboxes_def
          fetchMailboxes_settled_def mbs Let_def)
  have p: "emails (handleStateChange 1700000000000 50 ex_change ex_client net_down ex_store) = []"
    by (simp add: handleStateChange_def ch truthy_str_def fetchMailboxes_def
          fetchMailboxes_settled_def mbs Let_def refreshCurrentMailbox_def sel page
          refreshCurrentMailbox_settled_def empty_page_def)
  from h e m p show ?thesis by simp
qed

section \<open>Paging: hasMore\<close>

lemma response_name_result:
  "response_name r i = Some n \<Longrightarrow> \<exists>res. response_result r i = Some res"
  by (auto simp: response_name_def response_result_def split: option.splits)

lemma getEmails_hasMore_eq:
  "hasMore (getEmails c net mailboxId acc limit position) =
     (email_get_answered c net mailboxId acc limit position \<and>
      (if 0 < page_total (getEmails c net mailboxId acc limit position)
       then position + int (length (page_emails (getEmails c net mailboxId acc limit position)))
              < page_total (getEmails c net mailboxId acc limit position)
       else int (length (page_emails (getEmails c net mailboxId acc limit position))) = limit))"
proof (cases "request c net
                [Email_query (targetAccountId c acc) (truthy_str mailboxId) limit position,
                 Email_get_resultOf (targetAccountId c acc)]")
  case (Inl e)
  then show ?thesis
    by (simp add: getEmails_def email_get_answered_def empty_page_def)
next
  case (Inr response)
  show ?thesis
  proof (cases "response_name response 1 = Some ''Email/get''")
    case True
    then obtain res where "response_result response 1 = Some res"
      by (auto dest: response_name_result)
    with Inr True show ?thesis
      by (simp add: getEmails_def email_get_answered_def Let_def)
  next
    case False
    with Inr show ?thesis
      by (simp add: getEmails_def email_get_answered_def empty_page_def split: option.splits)
  qed
qed

lemma getEmails_unanswered:
  "email_get_answered c net mailboxId acc limit position \<or>
   getEmails c net mailboxId acc limit position = empty_page"
  by (auto simp: getEmails_def email_get_answered_def Let_def split: sum.splits option.splits)

lemma getEmails_answered:
  assumes "email_get_answered c net mailboxId acc limit position"
  shows "page_total (getEmails c net mailboxId acc limit position) =
           reported_total c net mailboxId acc limit position"
    and "page_emails (getEmails c net mailboxId acc limit position) =
           (if isSharedAccount c acc
            then map (namespace_email (or_else acc []))
                   (served_emails c net
                      [Email_query (targetAccountId c acc) (truthy_str mailboxId) limit position,
                       Email_get_resultOf (targetAccountId c acc)] 1)
            else served_emails c net
                   [Email_query (targetAccountId c acc) (truthy_str mailboxId) limit position,
                    Email_get_resultOf (targetAccountId c acc)] 1)"
    and "hasMore (getEmails c net mailboxId acc limit position) =
           (if 0 < reported_total c net mailboxId acc limit position
            then position +
                 int (length (served_emails c net
                      [Email_query (targetAccountId c acc) (truthy_str mailboxId) limit position,
                       Email_get_resultOf (targetAccountId c acc)] 1))
                   < reported_total c net mailboxId acc limit position
            else int (length (served_emails c net
                      [Email_query (targetAccountId c acc) (truthy_str mailboxId) limit position,
                       Email_get_resultOf (targetAccountId c acc)] 1)) = limit)"
proof -
  let ?batch = "[Email_query (targetAccountId c acc) (truthy_str mailboxId) limit position,
                 Email_get_resultOf (targetAccountId c acc)]"
  from assms obtain response where r: "request c net ?batch = Inr response"
    and n: "response_name response 1 = Some ''Email/get''"
    by (auto simp: email_get_answered_def split: sum.splits)
  from n obtain res where res: "response_result response 1 = Some res"
    by (auto dest: response_name_result)
  show "page_total (getEmails c net mailboxId acc limit position) =
           reported_total c net mailboxId acc limit position"
    using r n res
    by (simp add: getEmails_def reported_total_def Let_def or_zero_def split: option.splits)
  show "page_emails (getEmails c net mailboxId acc limit position) =
           (if isSharedAccount c acc
            then map (namespace_email (or_else acc [])) (served_emails c net ?batch 1)
            else served_emails c net ?batch 1)"
    using r n res
    by (simp add: getEmails_def served_emails_def Let_def)
  show "hasMore (getEmails c net mailboxId acc limit position) =
           (if 0 < reported_total c net mailboxId acc limit position
            then position + int (length (served_emails c net ?batch 1))
                   < reported_total c net mailboxId acc limit position
            else int (length (served_emails c net ?batch 1)) = limit)"
    using r n res
    by (simp add: getEmails_def reported_total_def served_emails_def Let_def or_zero_def
        split: option.splits)
qed

lemma getEmails_server:
  "getEmails ex_client (jmap_server held reports_total) (Some ''INBOX'') None limit position =
     (let got = take (nat limit) (drop (nat position) held);
          total = (if reports_total then int (length held) else 0)
      in \<lparr> page_emails = got,
           hasMore = (if 0 < total then position + int (length got) < total
                      else int (length got) = limit),
           page_total = total \<rparr>)"
  by (simp add: getEmails_def request_def jmap_server_def ex_client_def targetAccountId_def
      or_else_def truthy_str_def response_result_def response_name_def nth_opt_def
      empty_result_def or_zero_def isSharedAccount_def Let_def)

lemma length_ex_five: "length ex_five = 5"
  by (simp add: ex_five_def)

lemma getEmails_first_page:
  "page_emails (getEmails ex_client (jmap_server ex_five reports_total) (Some ''INBOX'') None 2 0) =
     take 2 ex_five \<and>
   hasMore (getEmails ex_client (jmap_server ex_five reports_total) (Some ''INBOX'') None 2 0)"
  by (simp add: getEmails_server length_ex_five Let_def)

lemma getEmails_last_page:
  "page_emails (getEmails ex_client (jmap_server ex_five reports_total) (Some ''INBOX'') None 2 4) =
     drop 4 ex_five \<and>
   \<not> hasMore (getEmails ex_client (jmap_server ex_five reports_total) (Some ''INBOX'') None 2 4)"
  by (simp add: getEmails_server length_ex_five Let_def)

text \<open>
  Claim C3 as stated fails when the query of the batch succeeds and its
  \<^verbatim>\<open>Email/get\<close> does not: the server reports the positive total 5, no email is
  returned at position 0, so position plus the number of returned emails is below the
  total, yet \<^verbatim>\<open>hasMore\<close> is false.
\<close>

theorem getEmails_hasMore_counterexample:
  "request ex_client net_get_fails
     [Email_query ''acct-1'' (Some ''INBOX'') 2 0, Email_get_resultOf ''acct-1''] =
     Inr \<lparr> methodResponses = Some
           [(''Email/query'', empty_result\<lparr>res_total := Some 5\<rparr>), (''error'', empty_result)] \<rparr> \<and>
   page_emails (getEmails ex_client net_get_fails (Some ''INBOX'') None 2 0) = [] \<and>
   0 + int (length (page_emails (getEmails ex_client net_get_fails (Some ''INBOX'') None 2 0))) < 5 \<and>
   \<not> hasMore (getEmails ex_client net_get_fails (Some ''INBOX'') None 2 0)"
  by (simp add: getEmails_def request_def net_get_fails_def ex_client_def empty_page_def
      targetAccountId_def or_else_def truthy_str_def response_result_def response_name_def
      nth_opt_def)

text \<open>
  Claim C3, amended.  \<^verbatim>\<open>hasMore\<close> is true iff the batch came back with an
  \<^verbatim>\<open>Email/get\<close> response and, when the total is positive, position plus the number of
  returned emails is below it, and otherwise exactly \<open>limit\<close> emails were returned.
  The total is the one \<^verbatim>\<open>getEmails\<close> returns, and when the batch came back with an
  \<^verbatim>\<open>Email/get\<close> response that is the total the server reported in its
  \<^verbatim>\<open>Email/query\<close> response, or 0 when it reported none; the emails returned are then
  the emails of the \<^verbatim>\<open>Email/get\<close> response, as many as the server sent (with their
  mailbox ids rewritten for a shared account).  Without an \<^verbatim>\<open>Email/get\<close> response
  (the request or that method failed) the result is the empty page with \<^verbatim>\<open>hasMore\<close>
  false and the total 0, whatever the server reported.  Against a mailbox holding
  five emails, on a server that reports the total or not,
  \<^verbatim>\<open>getEmails('INBOX', undefined, 2, 0)\<close> returns the two newest emails with \<^verbatim>\<open>hasMore\<close>
  true and \<^verbatim>\<open>getEmails('INBOX', undefined, 2, 4)\<close> returns the oldest one with
  \<^verbatim>\<open>hasMore\<close> false.
\<close>

theorem getEmails_hasMore:
  "hasMore (getEmails c net mailboxId acc limit position) =
     (email_get_answered c net mailboxId acc limit position \<and>
      (if 0 < page_total (getEmails c net mailboxId acc limit position)
       then position + int (length (page_emails (getEmails c net mailboxId acc limit position)))
              < page_total (getEmails c net mailboxId acc limit position)
       else int (length (page_emails (getEmails c net mailboxId acc limit position))) = limit)) \<and>
   (email_get_answered c net mailboxId acc limit position \<longrightarrow>
      page_total (getEmails c net mailboxId acc limit position) =
        reported_total c net mailboxId acc limit position \<and>
      page_emails (getEmails c net mailboxId acc limit position) =
        (if isSharedAccount c acc
         then map (namespace_email (or_else acc []))
                (served_emails c net
                   [Email_query (targetAccountId c acc) (truthy_str mailboxId) limit position,
                    Email_get_resultOf (targetAccountId c acc)] 1)
         else served_emails c net
                [Email_query (targetAccountId c acc) (truthy_str mailboxId) limit position,
                 Email_get_resultOf (targetAccountId c acc)] 1) \<and>
      hasMore (getEmails c net mailboxId acc limit position) =
        (if 0 < reported_total c net mailboxId acc limit position
         then position +
              int (length (served_emails c net
                   [Email_query (targetAccountId c acc) (truthy_str mailboxId) limit position,
                    Email_get_resultOf (targetAccountId c acc)] 1))
                < reported_total c net mailboxId acc limit position
         else int (length (served_emails c net
                   [Email_query (targetAccountId c acc) (truthy_str mailboxId) limit position,
                    Email_get_resultOf (targetAccountId c acc)] 1)) = limit)) \<and>
   (email_get_answered c net mailboxId acc limit position \<or>
    getEmails c net mailboxId acc limit position = empty_page) \<and>
   map email_id
     (page_emails (getEmails ex_client (jmap_server ex_five reports_total) (Some ''INBOX'') None 2 0)) =
     [''m5'', ''m4''] \<and>
   hasMore (getEmails ex_client (jmap_server ex_five reports_total) (Some ''INBOX'') None 2 0) \<and>
   map email_id
     (page_emails (getEmails ex_client (jmap_server ex_five reports_total) (Some ''INBOX'') None 2 4)) =
     [''m1''] \<and>
   \<not> hasMore (getEmails ex_client (jmap_server ex_five reports_total) (Some ''INBOX'') None 2 4)"
proof -
  note a = getEmails_hasMore_eq [of c net mailboxId acc limit position]
  note b = getEmails_unanswered [of c net mailboxId acc limit position]
  note e = getEmails_first_page [of reports_total] getEmails_last_page [of reports_total]
  from e have d:
    "map email_id
       (page_emails (getEmails ex_client (jmap_server ex_five reports_total) (Some ''INBOX'') None 2 0)) =
       [''m5'', ''m4'']"
    "hasMore (getEmails ex_client (jmap_server ex_five reports_total) (Some ''INBOX'') None 2 0)"
    "map email_id
       (page_emails (getEmails ex_client (jmap_server ex_five reports_total) (Some ''INBOX'') None 2 4)) =
       [''m1'']"
    "\<not> hasMore (getEmails ex_client (jmap_server ex_five reports_total) (Some ''INBOX'') None 2 4)"
    by (simp_all add: ex_five_def ex_mail_def)
  have f: "email_get_answered c net mailboxId acc limit position \<longrightarrow>
      page_total (getEmails c net mailboxId acc limit position) =
        reported_total c net mailboxId acc limit position \<and>
      page_emails (getEmails c net mailboxId acc limit position) =
        (if isSharedAccount c acc
         then map (namespace_email (or_else acc []))
                (served_emails c net
                   [Email_query (targetAccountId c acc) (truthy_str mailboxId) limit position,
                    Email_get_resultOf (targetAccountId c acc)] 1)
         else served_emails c net
                [Email_query (targetAccountId c acc) (truthy_str mailboxId) limit position,
                 Email_get_resultOf (targetAccountId c acc)] 1) \<and>
      hasMore (getEmails c net mailboxId acc limit position) =
        (if 0 < reported_total c net mailboxId acc limit position
         then position +
              int (length (served_emails c net
                   [Email_query (targetAccountId c acc) (truthy_str mailboxId) limit position,
                    Email_get_resultOf (targetAccountId c acc)] 1))
                < reported_total c net mailboxId acc limit position
         else int (length (served_emails c net
                   [Email_query (targetAccountId c acc) (truthy_str mailboxId) limit position,
                    Email_get_resultOf (targetAccountId c acc)] 1)) = limit)"
    using getEmails_answered [of c net mailboxId acc limit position] by blast
  show ?thesis
    by (intro conjI) (fact a f b d)+
qed

theorem getEmails_hasMore_witness:
  "email_get_answered ex_client (jmap_server ex_five True) (Some ''INBOX'') None 2 2 \<and>
   reported_total ex_client (jmap_server ex_five True) (Some ''INBOX'') None 2 2 = 5 \<and>
   page_total (getEmails ex_client (jmap_server ex_five True) (Some ''INBOX'') None 2 2) = 5 \<and>
   map email_id (page_emails (getEmails ex_client (jmap_server ex_five True) (Some ''INBOX'') None 2 2)) =
     [''m3'', ''m2''] \<and>
   hasMore (getEmails ex_client (jmap_server ex_five True) (Some ''INBOX'') None 2 2) \<and>
   email_get_answered ex_client (jmap_server ex_five False) (Some ''INBOX'') None 2 2 \<and>
   reported_total ex_client (jmap_server ex_five False) (Some ''INBOX'') None 2 2 = 0 \<and>
   page_total (getEmails ex_client (jmap_server ex_five False) (Some ''INBOX'') None 2 2) = 0 \<and>
   hasMore (getEmails ex_client (jmap_server ex_five False) (Some ''INBOX'') None 2 2) \<and>
   email_get_answered ex_client (jmap_server ex_five False) (Some ''INBOX'') None 2 3 \<and>
   map email_id (page_emails (getEmails ex_client (jmap_server ex_five False) (Some ''INBOX'') None 2 3)) =
     [''m2'', ''m1''] \<and>
   hasMore (getEmails ex_client (jmap_server ex_five False) (Some ''INBOX'') None 2 3) \<and>
   map email_id (page_emails (getEmails ex_client (jmap_server ex_five True) (Some ''INBOX'') None 2 3)) =
     [''m2'', ''m1''] \<and>
   \<not> hasMore (getEmails ex_client (jmap_server ex_five True) (Some ''INBOX'') None 2 3)"
proof -
  have a: "\<And>rt position. email_get_answered ex_client (jmap_server ex_five rt) (Some ''INBOX'') None 2 position"
    by (simp add: email_get_answered_def request_def jmap_server_def ex_client_def
        targetAccountId_def or_else_def truthy_str_def response_name_def nth_opt_def)
  have r: "\<And>rt position. reported_total ex_client (jmap_server ex_five rt) (Some ''INBOX'') None 2 position =
             (if rt then 5 else 0)"
    by (simp add: reported_total_def request_def jmap_server_def ex_client_def
        targetAccountId_def or_else_def truthy_str_def response_result_def nth_opt_def
        empty_result_def length_ex_five)
  have s: "\<And>rt position. served_emails ex_client (jmap_server ex_five rt)
             [Email_query (targetAccountId ex_client None) (truthy_str (Some ''INBOX'')) 2 position,
              Email_get_resultOf (targetAccountId ex_client None)] 1 =
             take 2 (drop (nat position) ex_five)"
    by (simp add: served_emails_def request_def jmap_server_def ex_client_def
        targetAccountId_def or_else_def truthy_str_def response_result_def nth_opt_def
        empty_result_def)
  have s': "\<And>rt position. served_emails ex_client (jmap_server ex_five rt)
             [Email_query (targetAccountId ex_client None) (truthy_str (Some ''INBOX'')) 2 position,
              Email_get_resultOf (targetAccountId ex_client None)] (Suc 0) =
             take 2 (drop (nat position) ex_five)"
    using s by simp
  have sh: "\<not> isSharedAccount ex_client None"
    by (simp add: isSharedAccount_def truthy_str_def)
  note t1 = getEmails_hasMore [of ex_client "jmap_server ex_five True" "Some ''INBOX''" None 2 2 True,
      THEN conjunct2, THEN conjunct1, rule_format, OF a]
  note t2 = getEmails_hasMore [of ex_client "jmap_server ex_five False" "Some ''INBOX''" None 2 2 True,
      THEN conjunct2, THEN conjunct1, rule_format, OF a]
  note t3 = getEmails_hasMore [of ex_client "jmap_server ex_five False" "Some ''INBOX''" None 2 3 True,
      THEN conjunct2, THEN conjunct1, rule_format, OF a]
  note t4 = getEmails_hasMore [of ex_client "jmap_server ex_five True" "Some ''INBOX''" None 2 3 True,
      THEN conjunct2, THEN conjunct1, rule_format, OF a]
  have 8: "map email_id (page_emails (getEmails ex_client (jmap_server ex_five True) (Some ''INBOX'') None 2 3)) =
     [''m2'', ''m1'']"
    using t4 by (simp add: s' sh) (simp add: ex_five_def ex_mail_def)
  have 9: "\<not> hasMore (getEmails ex_client (jmap_server ex_five True) (Some ''INBOX'') None 2 3)"
    using t4 by (simp add: r s' length_ex_five)
  have 1: "page_total (getEmails ex_client (jmap_server ex_five True) (Some ''INBOX'') None 2 2) = 5"
    using t1 by (simp add: r)
  have 2: "map email_id (page_emails (getEmails ex_client (jmap_server ex_five True) (Some ''INBOX'') None 2 2)) =
     [''m3'', ''m2'']"
    using t1 by (simp add: s' sh) (simp add: ex_five_def ex_mail_def)
  have 3: "hasMore (getEmails ex_client (jmap_server ex_five True) (Some ''INBOX'') None 2 2)"
    using t1 by (simp add: r s' length_ex_five)
  have 4: "page_total (getEmails ex_client (jmap_server ex_five False) (Some ''INBOX'') None 2 2) = 0"
    using t2 by (simp add: r)
  have 5: "hasMore (getEmails ex_client (jmap_server ex_five False) (Some ''INBOX'') None 2 2)"
    using t2 by (simp add: r s' length_ex_five)
  have 6: "map email_id (page_emails (getEmails ex_client (jmap_server ex_five False) (Some ''INBOX'') None 2 3)) =
     [''m2'', ''m1'']"
    using t3 by (simp add: s' sh) (simp add: ex_five_def ex_mail_def)
  have 7: "hasMore (getEmails ex_client (jmap_server ex_five False) (Some ''INBOX'') None 2 3)"
    using t3 by (simp add: r s' length_ex_five)
  have r5: "reported_total ex_client (jmap_server ex_five True) (Some ''INBOX'') None 2 2 = 5"
    "reported_total ex_client (jmap_server ex_five False) (Some ''INBOX'') None 2 2 = 0"
    by (simp_all add: r)
  show ?thesis
    by (intro conjI) (fact a r5 1 2 3 4 5 6 7 8 9)+
qed

section \<open>Namespacing of shared accounts\<close>

lemma namespaced_inj [simp]: "(namespaced acc k = namespaced acc k') = (k = k')"
  by (simp add: namespaced_def)

lemma namespace_fold_lookup:
  "map_of (foldl (\<lambda>out mbId. case map_of ids mbId of
                                 Some v \<Rightarrow> AList.update (namespaced acc mbId) v out
                               | None \<Rightarrow> out) init ks) (namespaced acc k) =
     (if k \<in> set ks \<and> map_of ids k \<noteq> None then map_of ids k
      else map_of init (namespaced acc k))"
proof (induction ks arbitrary: init)
  case Nil
  show ?case by simp
next
  case (Cons x ks)
  show ?case
    by (cases "map_of ids x") (auto simp: Cons.IH update_conv')
qed

lemma namespace_fold_keys:
  "fst ` set (foldl (\<lambda>out mbId. case map_of ids mbId of
                                   Some v \<Rightarrow> AList.update (namespaced acc mbId) v out
                                 | None \<Rightarrow> out) init ks) =
     fst ` set init \<union> namespaced acc ` {k \<in> set ks. map_of ids k \<noteq> None}"
proof (induction ks arbitrary: init)
  case Nil
  show ?case by simp
next
  case (Cons x ks)
  show ?case
    by (cases "map_of ids x") (auto simp: Cons.IH dom_update)
qed

lemma namespace_mailboxIds_get:
  "obj_get (namespace_mailboxIds acc ids) (namespaced acc k) = obj_get ids k"
proof -
  have "k \<notin> set (map fst ids) \<Longrightarrow> map_of ids k = None"
    by (simp add: map_of_eq_None_iff)
  then show ?thesis
    unfolding namespace_mailboxIds_def obj_get_def obj_set_def obj_keys_def
    by (simp only: namespace_fold_lookup) auto
qed

lemma namespace_mailboxIds_keys:
  "set (obj_keys (namespace_mailboxIds acc ids)) = namespaced acc ` set (obj_keys ids)"
proof -
  have "{k \<in> set (map fst ids). map_of ids k \<noteq> None} = set (map fst ids)"
    by (auto simp: map_of_eq_None_iff)
  then show ?thesis
    unfolding namespace_mailboxIds_def obj_get_def obj_set_def obj_keys_def
    by (simp only: set_map namespace_fold_keys) simp
qed


lemma account_mailbox_shared:
  assumes "acc \<noteq> client_accountId c"
  shows "mailbox_id (account_mailbox c acc raw) = acc @ '':'' @ raw_id raw"
    and "originalId (account_mailbox c acc raw) = Some (raw_id raw)"
    and "parentId (account_mailbox c acc raw) =
           map_option (\<lambda>p. acc @ '':'' @ p) (truthy_str (raw_parentId raw))"
    and "is_shared (account_mailbox c acc raw)"
  using assms
  by (simp_all add: account_mailbox_def namespaced_def is_shared_def Let_def split: option.splits)

lemma account_mailbox_primary:
  "mailbox_id (account_mailbox c (client_accountId c) raw) = raw_id raw"
  "parentId (account_mailbox c (client_accountId c) raw) = truthy_str (raw_parentId raw)"
  "\<not> is_shared (account_mailbox c (client_accountId c) raw)"
  by (simp_all add: account_mailbox_def is_shared_def Let_def split: option.splits)

lemma account_mailbox_accountId [simp]: "accountId (account_mailbox c acc raw) = Some acc"
  by (simp add: account_mailbox_def Let_def)

lemma getMailboxes_cases:
  assumes "m \<in> set (getMailboxes c net)"
  shows "m = fallback_inbox c \<or>
         (\<exists>raw \<in> set (account_raw_mailboxes c net (client_accountId c)). m = primary_mailbox c raw)"
proof (cases "request c net [Mailbox_get (client_accountId c)]")
  case (Inl e)
  with assms show ?thesis by (simp add: getMailboxes_def)
next
  case (Inr response)
  show ?thesis
  proof (cases "response_name response 0 = Some ''Mailbox/get''")
    case False
    with Inr assms show ?thesis by (simp add: getMailboxes_def)
  next
    case True
    show ?thesis
    proof (cases "response_result response 0")
      case None
      with Inr True assms show ?thesis by (simp add: getMailboxes_def)
    next
      case (Some res)
      with Inr True assms show ?thesis
        by (auto simp: getMailboxes_def account_raw_mailboxes_def)
    qed
  qed
qed

lemma getAllMailboxes_cases:
  assumes "m \<in> set (getAllMailboxes c net)"
  shows "(accounts c = [] \<and> m \<in> set (getMailboxes c net)) \<or>
         (\<exists>acc \<in> set (obj_keys (accounts c)).
            \<exists>raw \<in> set (account_raw_mailboxes c net acc). m = account_mailbox c acc raw)"
  using assms
  by (auto simp: getAllMailboxes_def Let_def obj_keys_def split: if_splits)

lemma primary_mailbox_sel:
  "mailbox_id (primary_mailbox c raw) = raw_id raw"
  "parentId (primary_mailbox c raw) = truthy_str (raw_parentId raw)"
  "accountId (primary_mailbox c raw) = Some (client_accountId c)"
  "\<not> is_shared (primary_mailbox c raw)"
  by (simp_all add: primary_mailbox_def is_shared_def)

lemma fallback_inbox_sel:
  "accountId (fallback_inbox c) = Some (client_accountId c)"
  "\<not> is_shared (fallback_inbox c)"
  by (simp_all add: fallback_inbox_def is_shared_def)

lemma shared_mailboxes:
  assumes "A \<noteq> client_accountId c" "m \<in> set (getAllMailboxes c net)" "accountId m = Some A"
  shows "\<exists>raw \<in> set (account_raw_mailboxes c net A).
           mailbox_id m = A @ '':'' @ raw_id raw \<and> originalId m = Some (raw_id raw) \<and>
           parentId m = map_option (\<lambda>p. A @ '':'' @ p) (truthy_str (raw_parentId raw)) \<and>
           is_shared m"
proof -
  from getAllMailboxes_cases [OF assms(2)] show ?thesis
  proof (elim disjE)
    assume "accounts c = [] \<and> m \<in> set (getMailboxes c net)"
    then have "m \<in> set (getMailboxes c net)" by simp
    from getMailboxes_cases [OF this] have "accountId m = Some (client_accountId c)"
      by (auto simp: primary_mailbox_sel fallback_inbox_sel)
    with assms show ?thesis by simp
  next
    assume "\<exists>acc \<in> set (obj_keys (accounts c)).
              \<exists>raw \<in> set (account_raw_mailboxes c net acc). m = account_mailbox c acc raw"
    then obtain acc raw where raw: "raw \<in> set (account_raw_mailboxes c net acc)"
      and m: "m = account_mailbox c acc raw" by blast
    from m assms(3) have "acc = A" by simp
    with raw m assms(1) show ?thesis
      by (auto simp: account_mailbox_shared)
  qed
qed

lemma primary_mailboxes:
  assumes "m \<in> set (getAllMailboxes c net)" "accountId m = Some (client_accountId c)"
  shows "\<not> is_shared m \<and>
         (m = fallback_inbox c \<or>
          (\<exists>raw \<in> set (account_raw_mailboxes c net (client_accountId c)).
             mailbox_id m = raw_id raw \<and> parentId m = truthy_str (raw_parentId raw)))"
proof -
  from getAllMailboxes_cases [OF assms(1)] show ?thesis
  proof (elim disjE)
    assume "accounts c = [] \<and> m \<in> set (getMailboxes c net)"
    then have "m \<in> set (getMailboxes c net)" by simp
    from getMailboxes_cases [OF this] show ?thesis
      by (auto simp: primary_mailbox_sel fallback_inbox_sel)
  next
    assume "\<exists>acc \<in> set (obj_keys (accounts c)).
              \<exists>raw \<in> set (account_raw_mailboxes c net acc). m = account_mailbox c acc raw"
    then obtain acc raw where raw: "raw \<in> set (account_raw_mailboxes c net acc)"
      and m: "m = account_mailbox c acc raw" by blast
    from m assms(2) have "acc = client_accountId c" by simp
    with raw m show ?thesis
      by (auto simp: account_mailbox_primary)
  qed
qed

lemma shared_acc [simp]:
  "A \<noteq> [] \<Longrightarrow> A \<noteq> client_accountId c \<Longrightarrow> isSharedAccount c (Some A)"
  "A \<noteq> [] \<Longrightarrow> targetAccountId c (Some A) = A"
  "A \<noteq> [] \<Longrightarrow> or_else (Some A) d = A"
  by (simp_all add: isSharedAccount_def targetAccountId_def or_else_def truthy_str_def)

lemma getEmails_emails:
  "page_emails (getEmails c net mailboxId acc limit position) = [] \<or>
   page_emails (getEmails c net mailboxId acc limit position) =
     (if isSharedAccount c acc then map (namespace_email (or_else acc [])) else (\<lambda>es. es))
       (served_emails c net
          [Email_query (targetAccountId c acc) (truthy_str mailboxId) limit position,
           Email_get_resultOf (targetAccountId c acc)] 1)"
  by (auto simp: getEmails_def served_emails_def empty_page_def Let_def
      split: sum.splits option.splits)

lemma getEmail_email:
  "getEmail c net headers_throw i acc = None \<or>
   (\<exists>e. nth_opt (served_emails c net [Email_get (targetAccountId c acc) [i] True] 0) 0 = Some e \<and>
        getEmail c net headers_throw i acc =
          Some ((if isSharedAccount c acc then namespace_email (or_else acc []) else (\<lambda>e. e)) e))"
  by (auto simp: getEmail_def served_emails_def nth_opt_def
      split: sum.splits option.splits list.splits)

lemma getThreadEmails_emails:
  "getThreadEmails c net tid acc = [] \<or>
   (\<exists>ids. getThreadEmails c net tid acc =
      sort_newest_first
        ((if isSharedAccount c acc then map (namespace_email (or_else acc [])) else (\<lambda>es. es))
           (served_emails c net [Email_get (targetAccountId c acc) ids False] 0)))"
proof (cases "getThread c net tid acc")
  case None
  then show ?thesis by (simp add: getThreadEmails_def)
next
  case (Some thread)
  show ?thesis
  proof (cases "emailIds thread")
    case None
    with Some show ?thesis by (simp add: getThreadEmails_def)
  next
    case ids: (Some ids)
    have "getThreadEmails c net tid acc = [] \<or>
          getThreadEmails c net tid acc =
            sort_newest_first
              ((if isSharedAccount c acc then map (namespace_email (or_else acc []))
                else (\<lambda>es. es))
                 (served_emails c net [Email_get (targetAccountId c acc) ids False] 0))"
      using Some ids
      by (simp add: getThreadEmails_def served_emails_def Let_def
          split: sum.splits option.splits)
    then show ?thesis by blast
  qed
qed

lemma namespace_email_sel:
  "mailboxIds (namespace_email A e) = map_option (namespace_mailboxIds A) (mailboxIds e)"
  "email_id (namespace_email A e) = email_id e"
  "threadId (namespace_email A e) = threadId e"
  "email_keywords (namespace_email A e) = email_keywords e"
  by (simp_all add: namespace_email_def split: option.splits)

text \<open>
  Claim C4.  Let \<open>A\<close> be a shared account: a non-empty account id other than the
  client's own.  Every mailbox \<^verbatim>\<open>getAllMailboxes\<close> returns for \<open>A\<close> comes from a
  mailbox the server sent for \<open>A\<close>, has the id \<open>A:\<close> followed by the server's id, the
  server's id as \<^verbatim>\<open>originalId\<close>, the parent id prefixed the same way when the server
  sent a non-empty one, and is flagged shared.  The emails \<^verbatim>\<open>getEmails\<close>,
  \<^verbatim>\<open>getEmail\<close> and \<^verbatim>\<open>getThreadEmails\<close> return for \<open>A\<close> are the emails the server sent
  with \<^verbatim>\<open>mailboxIds\<close> rewritten: the keys of the new object are exactly the old keys
  prefixed with \<open>A:\<close>, each with the value of the old key.  The mailboxes returned for
  the client's own account keep the server's id and parent id and are not flagged
  shared, and the emails fetched without an account id are returned as the server sent
  them.
\<close>

theorem shared_account_namespacing:
  assumes "A \<noteq> []" and "A \<noteq> client_accountId c"
  shows
  "(\<forall>m \<in> set (getAllMailboxes c net). accountId m = Some A \<longrightarrow>
      (\<exists>raw \<in> set (account_raw_mailboxes c net A).
         mailbox_id m = A @ '':'' @ raw_id raw \<and> originalId m = Some (raw_id raw) \<and>
         parentId m = map_option (\<lambda>p. A @ '':'' @ p) (truthy_str (raw_parentId raw)) \<and>
         is_shared m)) \<and>
   (\<forall>m \<in> set (getAllMailboxes c net). accountId m = Some (client_accountId c) \<longrightarrow>
      \<not> is_shared m \<and>
      (m = fallback_inbox c \<or>
       (\<exists>raw \<in> set (account_raw_mailboxes c net (client_accountId c)).
          mailbox_id m = raw_id raw \<and> parentId m = truthy_str (raw_parentId raw)))) \<and>
   (page_emails (getEmails c net mailboxId (Some A) limit position) = [] \<or>
    page_emails (getEmails c net mailboxId (Some A) limit position) =
      map (namespace_email A)
        (served_emails c net
           [Email_query A (truthy_str mailboxId) limit position, Email_get_resultOf A] 1)) \<and>
   (getEmail c net headers_throw i (Some A) = None \<or>
    (\<exists>e. nth_opt (served_emails c net [Email_get A [i] True] 0) 0 = Some e \<and>
         getEmail c net headers_throw i (Some A) = Some (namespace_email A e))) \<and>
   (getThreadEmails c net tid (Some A) = [] \<or>
    (\<exists>ids. getThreadEmails c net tid (Some A) =
       sort_newest_first
         (map (namespace_email A) (served_emails c net [Email_get A ids False] 0)))) \<and>
   mailboxIds (namespace_email A e) = map_option (namespace_mailboxIds A) (mailboxIds e) \<and>
   set (obj_keys (namespace_mailboxIds A mbIds)) = (\<lambda>k. A @ '':'' @ k) ` set (obj_keys mbIds) \<and>
   obj_get (namespace_mailboxIds A mbIds) (A @ '':'' @ k) = obj_get mbIds k \<and>
   (page_emails (getEmails c net mailboxId None limit position) = [] \<or>
    page_emails (getEmails c net mailboxId None limit position) =
      served_emails c net
        [Email_query (client_accountId c) (truthy_str mailboxId) limit position,
         Email_get_resultOf (client_accountId c)] 1) \<and>
   (getEmail c net headers_throw i None = None \<or>
    (\<exists>e. nth_opt (served_emails c net [Email_get (client_accountId c) [i] True] 0) 0 = Some e \<and>
         getEmail c net headers_throw i None = Some e)) \<and>
   (getThreadEmails c net tid None = [] \<or>
    (\<exists>ids. getThreadEmails c net tid None =
       sort_newest_first (served_emails c net [Email_get (client_accountId c) ids False] 0)))"
proof -
  have none: "\<not> isSharedAccount c None" "targetAccountId c None = client_accountId c"
    by (simp_all add: isSharedAccount_def targetAccountId_def or_else_def truthy_str_def)
  have 1: "\<forall>m \<in> set (getAllMailboxes c net). accountId m = Some A \<longrightarrow>
      (\<exists>raw \<in> set (account_raw_mailboxes c net A).
         mailbox_id m = A @ '':'' @ raw_id raw \<and> originalId m = Some (raw_id raw) \<and>
         parentId m = map_option (\<lambda>p. A @ '':'' @ p) (truthy_str (raw_parentId raw)) \<and>
         is_shared m)"
    using shared_mailboxes [OF assms(2)] by blast
  have 2: "\<forall>m \<in> set (getAllMailboxes c net). accountId m = Some (client_accountId c) \<longrightarrow>
      \<not> is_shared m \<and>
      (m = fallback_inbox c \<or>
       (\<exists>raw \<in> set (account_raw_mailboxes c net (client_accountId c)).
          mailbox_id m = raw_id raw \<and> parentId m = truthy_str (raw_parentId raw)))"
    using primary_mailboxes by blast
  have 3: "page_emails (getEmails c net mailboxId (Some A) limit position) = [] \<or>
    page_emails (getEmails c net mailboxId (Some A) limit position) =
      map (namespace_email A)
        (served_emails c net
           [Email_query A (truthy_str mailboxId) limit position, Email_get_resultOf A] 1)"
    using getEmails_emails [of c net mailboxId "Some A" limit position] assms by simp
  have 4: "getEmail c net headers_throw i (Some A) = None \<or>
    (\<exists>e. nth_opt (served_emails c net [Email_get A [i] True] 0) 0 = Some e \<and>
         getEmail c net headers_throw i (Some A) = Some (namespace_email A e))"
    using getEmail_email [of c net headers_throw i "Some A"] assms by simp
  have 5: "getThreadEmails c net tid (Some A) = [] \<or>
    (\<exists>ids. getThreadEmails c net tid (Some A) =
       sort_newest_first
         (map (namespace_email A) (served_emails c net [Email_get A ids False] 0)))"
    using getThreadEmails_emails [of c net tid "Some A"] assms by simp
  have 6: "mailboxIds (namespace_email A e) = map_option (namespace_mailboxIds A) (mailboxIds e)"
    by (rule namespace_email_sel)
  have 7: "set (obj_keys (namespace_mailboxIds A mbIds)) = (\<lambda>k. A @ '':'' @ k) ` set (obj_keys mbIds)"
    using namespace_mailboxIds_keys [of A mbIds] by (simp add: namespaced_def [abs_def])
  have 8: "obj_get (namespace_mailboxIds A mbIds) (A @ '':'' @ k) = obj_get mbIds k"
    using namespace_mailboxIds_get [of A mbIds k] by (simp add: namespaced_def)
  have 9: "page_emails (getEmails c net mailboxId None limit position) = [] \<or>
    page_emails (getEmails c net mailboxId None limit position) =
      served_emails c net
        [Email_query (client_accountId c) (truthy_str mailboxId) limit position,
         Email_get_resultOf (client_accountId c)] 1"
    using getEmails_emails [of c net mailboxId None limit position] by (simp add: none)
  have 10: "getEmail c net headers_throw i None = None \<or>
    (\<exists>e. nth_opt (served_emails c net [Email_get (client_accountId c) [i] True] 0) 0 = Some e \<and>
         getEmail c net headers_throw i None = Some e)"
    using getEmail_email [of c net headers_throw i None] by (simp add: none)
  have 11: "getThreadEmails c net tid None = [] \<or>
    (\<exists>ids. getThreadEmails c net tid None =
       sort_newest_first (served_emails c net [Email_get (client_accountId c) ids False] 0))"
    using getThreadEmails_emails [of c net tid None] by (simp add: none)
  show ?thesis
    by (intro conjI) (fact 1 2 3 4 5 6 7 8 9 10 11)+
qed

lemma ex_getAllMailboxes:
  "getAllMailboxes ex_client net_shared =
     [account_mailbox ex_client ''acct-1'' ex_raw_inbox,
      account_mailbox ex_client ''acct-2'' ex_raw_inbox]"
proof -
  have "\<And>acc. account_raw_mailboxes ex_client net_shared acc = [ex_raw_inbox]"
    by (simp add: account_raw_mailboxes_def request_def net_shared_def response_name_def
        response_result_def nth_opt_def empty_result_def ex_client_def)
  then show ?thesis
    by (simp add: getAllMailboxes_def Let_def) (simp add: ex_client_def obj_keys_def)
qed

theorem shared_account_namespacing_witness:
  "''acct-2'' \<noteq> [] \<and> ''acct-2'' \<noteq> client_accountId ex_client \<and>
   map mailbox_id (getAllMailboxes ex_client net_shared) = [''INBOX'', ''acct-2:INBOX''] \<and>
   map originalId (getAllMailboxes ex_client net_shared) = [Some ''INBOX'', Some ''INBOX''] \<and>
   map parentId (getAllMailboxes ex_client net_shared) = [Some ''ROOT'', Some ''acct-2:ROOT''] \<and>
   map accountId (getAllMailboxes ex_client net_shared) = [Some ''acct-1'', Some ''acct-2''] \<and>
   map mailboxIds (page_emails (getEmails ex_client net_shared (Some ''INBOX'') (Some ''acct-2'') 2 0)) =
     [Some [(''acct-2:INBOX'', True)]] \<and>
   obj_get (namespace_mailboxIds ''acct-2'' [(''INBOX'', True)]) ''acct-2:INBOX'' = Some True"
proof -
  have h: "''acct-2'' \<noteq> []" "''acct-2'' \<noteq> client_accountId ex_client"
    by (simp_all add: ex_client_def)
  note t = shared_account_namespacing [OF h, where net = net_shared and mbIds = "[(''INBOX'', True)]"
      and k = "''INBOX''"]
  from t have g: "obj_get (namespace_mailboxIds ''acct-2'' [(''INBOX'', True)]) ''acct-2:INBOX'' = Some True"
    by (simp add: obj_get_def)
  have m: "map mailbox_id (getAllMailboxes ex_client net_shared) = [''INBOX'', ''acct-2:INBOX'']"
    "map originalId (getAllMailboxes ex_client net_shared) = [Some ''INBOX'', Some ''INBOX'']"
    "map parentId (getAllMailboxes ex_client net_shared) = [Some ''ROOT'', Some ''acct-2:ROOT'']"
    "map accountId (getAllMailboxes ex_client net_shared) = [Some ''acct-1'', Some ''acct-2'']"
    by (simp_all add: ex_getAllMailboxes)
       (simp_all add: account_mailbox_def Let_def ex_client_def ex_raw_inbox_def
        namespaced_def truthy_str_def)
  have p: "map mailboxIds (page_emails (getEmails ex_client net_shared (Some ''INBOX'') (Some ''acct-2'') 2 0)) =
     [Some [(''acct-2:INBOX'', True)]]"
    by (simp add: getEmails_def request_def net_shared_def response_name_def
        response_result_def nth_opt_def empty_result_def ex_client_def targetAccountId_def
        or_else_def truthy_str_def isSharedAccount_def Let_def namespace_email_def ex_mail_def
        namespace_mailboxIds_def obj_keys_def obj_get_def obj_set_def namespaced_def or_zero_def)
  show ?thesis
    by (intro conjI) (fact h g m p)+
qed

section \<open>Mutations and the notUpdated map\<close>

lemma await_request_resolves:
  "request c net methodCalls = Inr response \<Longrightarrow> await_request c net methodCalls = Inr ()"
  by (simp add: await_request_def)

lemma ex_request_not_updated:
  "request ex_client net_not_updated methodCalls =
     Inr \<lparr> methodResponses = Some
       [(''Email/set'',
         empty_result\<lparr>notUpdated :=
           Some [(''a'', \<lparr> err_type = Some ''forbidden'',
                          err_description = Some ''The mailbox is read-only'' \<rparr>)]\<rparr>)] \<rparr>"
  by (simp add: request_def net_not_updated_def ex_client_def)

text \<open>
  Claim C6 fails on the code.  The server answers the \<^verbatim>\<open>Email/set\<close> of
  \<^verbatim>\<open>markAsRead('a', true)\<close> with a \<^verbatim>\<open>notUpdated\<close> map naming \<open>a\<close>; the claim has the
  client throw an error carrying the entry's description, but \<^verbatim>\<open>markAsRead\<close> resolves,
  and so do the other mutation methods that do not look at the response.  The store
  then takes the update for done: it marks \<open>a\<close> as seen, lowers the unread counter of
  the inbox and records no error.  \<^verbatim>\<open>createDraft\<close> does what the claim says: refused
  with a \<^verbatim>\<open>notCreated\<close> map, it throws an error carrying the description of the first
  entry.
\<close>

theorem client_markAsRead_ignores_notUpdated:
  "createDraft ex_client net_not_created 7 [''bob@example.org''] ''Hi'' ''text'' None None None None =
     Inl (Error ''Quota exceeded'') \<and>
   client_markAsRead ex_client net_not_updated ''a'' True None = Inr () \<and>
   client_batchMarkAsRead ex_client net_not_updated [''a''] True = Inr () \<and>
   client_toggleStar ex_client net_not_updated ''a'' True = Inr () \<and>
   client_updateEmailKeywords ex_client net_not_updated ''a'' [(''$seen'', True)] = Inr () \<and>
   client_moveEmail ex_client net_not_updated ''a'' ''trash'' = Inr () \<and>
   client_moveToTrash ex_client net_not_updated ''a'' ''trash'' None = Inr () \<and>
   client_batchMoveEmails ex_client net_not_updated [''a''] ''trash'' = Inr () \<and>
   thrown (markAsRead ex_client net_not_updated ''a'' True ex_store) = None \<and>
   error (final (markAsRead ex_client net_not_updated ''a'' True ex_store)) = None \<and>
   map is_seen (emails (final (markAsRead ex_client net_not_updated ''a'' True ex_store))) =
     [True, True, False] \<and>
   map unreadEmails (mailboxes ex_store) = [2, 0] \<and>
   map unreadEmails (mailboxes (final (markAsRead ex_client net_not_updated ''a'' True ex_store))) =
     [1, 0]"
proof -
  have c: "\<And>calls. await_request ex_client net_not_updated calls = Inr ()"
    by (rule await_request_resolves) (rule ex_request_not_updated)
  have start: "markAsRead_start ''a'' True ex_store =
      (ex_store\<lparr>processingReadStatus := {''a-true''}\<rparr>, Some (Call_markAsRead ''a'' True None))"
    by (simp add: markAsRead_start_def ex_store_find Let_def processingKey_def)
       (simp add: ex_store_def shared_accountId_def ex_mailbox_def is_shared_def)
  have run: "markAsRead ex_client net_not_updated ''a'' True ex_store =
      \<lparr> final = markAsRead_resolved ''a'' True (ex_store\<lparr>processingReadStatus := {''a-true''}\<rparr>),
        calls = [Call_markAsRead ''a'' True None], thrown = None \<rparr>"
    by (simp add: markAsRead_def start markAsRead_finish_def client_markAsRead_def c)
  have fin: "find_email ''a'' (ex_store\<lparr>processingReadStatus := {''a-true''}\<rparr>) =
      Some (ex_mail ''a'' ''t1'' False 100 ''inbox'')"
    using ex_store_find(1) by (simp add: find_email_def)
  have draft:
    "createDraft ex_client net_not_created 7 [''bob@example.org''] ''Hi'' ''text'' None None None None =
       Inl (Error ''Quota exceeded'')"
    by code_simp
  show ?thesis
    apply (rule conjI)
    apply (rule draft)
    apply (intro conjI)
    apply (simp_all add: client_markAsRead_def client_batchMarkAsRead_def client_toggleStar_def
        client_updateEmailKeywords_def client_moveEmail_def client_moveToTrash_def
        client_batchMoveEmails_def c)
    apply (simp_all add: run markAsRead_resolved_def fin Let_def)
    apply (simp_all add: ex_store_def ex_page_def ex_mailbox_def in_mailbox_def ex_mail_def
        obj_get_def with_keyword_def is_seen_def keyword_set_def obj_set_def)
    done
qed

section \<open>Mailbox counters\<close>

lemma adjusted_map:
  assumes "\<And>mb. mb \<in> set mbs \<Longrightarrow> adjusted (dT mb) (dU mb) mb (f mb)"
  shows "list_all2 (\<lambda>mb mb'. adjusted (dT mb) (dU mb) mb mb') mbs (map f mbs)"
  using assms by (simp add: list_all2_map2 list_all2_same)

lemma adjusted_same:
  "nonneg_counters mb \<Longrightarrow> adjusted 0 0 mb mb"
  by (simp add: adjusted_def nonneg_counters_def)

lemma in_list_all: "list_all P xs \<Longrightarrow> x \<in> set xs \<Longrightarrow> P x"
  by (simp add: list_all_iff)

text \<open>For an ordinary mailbox id the test of the store is membership.\<close>

lemma in_mailbox_member:
  "k \<notin> set Object_prototype_keys \<Longrightarrow> in_mailbox e k = member_of e k"
  by (auto simp: in_mailbox_def member_of_def split: option.splits)

text \<open>A mailbox whose id is an inherited name passes the test of the store for an
  email that is not a member of it.\<close>

lemma in_mailbox_inherited:
  "in_mailbox (ex_mail ''a'' ''t1'' False 100 ''inbox'') ''constructor'' \<and>
   \<not> member_of (ex_mail ''a'' ''t1'' False 100 ''inbox'') ''constructor''"
  by (simp add: in_mailbox_def member_of_def ex_mail_def obj_get_def Object_prototype_keys_def)

lemma ordinary_id:
  "ordinary_ids mbs \<Longrightarrow> mb \<in> set mbs \<Longrightarrow> mailbox_id mb \<notin> set Object_prototype_keys"
  by (simp add: ordinary_ids_def list_all_iff)

lemma adjusted_cong:
  assumes "list_all2 (\<lambda>mb mb'. adjusted (dT mb) (dU mb) mb mb') mbs mbs'"
    and "\<And>mb. mb \<in> set mbs \<Longrightarrow> dT mb = dT' mb \<and> dU mb = dU' mb"
  shows "list_all2 (\<lambda>mb mb'. adjusted (dT' mb) (dU' mb) mb mb') mbs mbs'"
  using assms(1)
proof (rule list.rel_mono_strong)
  fix mb mb'
  assume "mb \<in> set mbs" "mb' \<in> set mbs'" "adjusted (dT mb) (dU mb) mb mb'"
  with assms(2) [of mb] show "adjusted (dT' mb) (dU' mb) mb mb'" by simp
qed

lemma nonneg_leaves: "nonneg_counters (email_leaves u mb) = (u \<or> (0 \<le> unreadEmails mb \<and> 0 \<le> unreadThreads mb))"
  by (auto simp: nonneg_counters_def email_leaves_def)

lemma nonneg_arrives: "nonneg_counters mb \<Longrightarrow> nonneg_counters (email_arrives u mb)"
  by (simp add: nonneg_counters_def email_arrives_def)

lemma adjusted_leaves:
  "nonneg_counters mb \<Longrightarrow>
   adjusted (total_delta True enters) (unread_delta e True enters) mb (email_leaves (\<not> is_seen e) mb)"
  by (simp add: adjusted_def email_leaves_def total_delta_def unread_delta_def unread_weight_def
      nonneg_counters_def)

lemma adjusted_arrives:
  "nonneg_counters mb \<Longrightarrow>
   adjusted (total_delta False True) (unread_delta e False True) mb (email_arrives (\<not> is_seen e) mb)"
  by (simp add: adjusted_def email_arrives_def total_delta_def unread_delta_def unread_weight_def
      nonneg_counters_def)

lemma adjusted_stays:
  "nonneg_counters mb \<Longrightarrow> adjusted (total_delta False False) (unread_delta e False False) mb mb"
  by (simp add: adjusted_def total_delta_def unread_delta_def nonneg_counters_def)

lemma adjusted_transfer:
  "nonneg_counters mb \<Longrightarrow>
   adjusted (total_delta leaves enters) (unread_delta e leaves enters) mb
     (if leaves then email_leaves (\<not> is_seen e) mb
      else if enters then email_arrives (\<not> is_seen e) mb else mb)"
  by (cases leaves; cases enters) (simp_all add: adjusted_leaves adjusted_arrives adjusted_stays)

lemma nonneg_transfer:
  "nonneg_counters mb \<Longrightarrow>
   nonneg_counters (if leaves then email_leaves u mb
                    else if enters then email_arrives u mb else mb)"
  by (simp add: nonneg_counters_def email_leaves_def email_arrives_def)

subsection \<open>markAsRead\<close>

lemma find_email_processing [simp]:
  "find_email i (s\<lparr>processingReadStatus := p\<rparr>) = find_email i s"
  by (simp add: find_email_def)

lemma markAsRead_run:
  assumes "find_email i s = Some e" "is_seen e \<noteq> read"
    "processingKey i read \<notin> processingReadStatus s"
  shows "markAsRead c net i read s =
     (let call = Call_markAsRead i read (shared_accountId s);
          s1 = s\<lparr>processingReadStatus := insert (processingKey i read) (processingReadStatus s)\<rparr>;
          (s2, t) = markAsRead_finish i read (perform c net call) s1
      in \<lparr> final = s2, calls = [call], thrown = t \<rparr>)"
  using assms
  by (simp add: markAsRead_def markAsRead_start_def Let_def shared_accountId_def)

lemma markAsRead_counters:
  assumes "find_email i s = Some e" "is_seen e \<noteq> read"
    "processingKey i read \<notin> processingReadStatus s"
    "perform c net (Call_markAsRead i read (shared_accountId s)) = Inr ()"
    "list_all nonneg_counters (mailboxes s)" "ordinary_ids (mailboxes s)"
  shows "list_all2 (\<lambda>mb mb'. adjusted 0 (read_delta read e mb) mb mb')
           (mailboxes s) (mailboxes (final (markAsRead c net i read s)))"
proof -
  let ?f = "\<lambda>mb. if in_mailbox e (mailbox_id mb)
                  then mb\<lparr>unreadEmails := max 0 (unreadEmails mb + (if read then - 1 else 1)),
                          unreadThreads := max 0 (unreadThreads mb + (if read then - 1 else 1))\<rparr>
                  else mb"
  have "mailboxes (final (markAsRead c net i read s)) = map ?f (mailboxes s)"
    using assms(1-4)
    by (simp add: markAsRead_run markAsRead_finish_def markAsRead_resolved_def Let_def)
  moreover have "list_all2 (\<lambda>mb mb'. adjusted 0 (read_delta read e mb) mb mb')
                   (mailboxes s) (map ?f (mailboxes s))"
  proof (rule adjusted_map)
    fix mb assume mb: "mb \<in> set (mailboxes s)"
    with assms(5) have "nonneg_counters mb" by (rule in_list_all)
    with assms(2) in_mailbox_member [OF ordinary_id [OF assms(6) mb], of e]
    show "adjusted 0 (read_delta read e mb) mb (?f mb)"
      by (simp add: adjusted_def read_delta_def nonneg_counters_def)
  qed
  ultimately show ?thesis by simp
qed

lemma markAsRead_resolved_nonneg:
  "list_all nonneg_counters (mailboxes s) \<Longrightarrow>
   list_all nonneg_counters (mailboxes (markAsRead_resolved i read s))"
  by (auto simp: markAsRead_resolved_def Let_def list_all_iff nonneg_counters_def
      split: option.splits)

lemma markAsRead_nonneg:
  assumes "list_all nonneg_counters (mailboxes s)"
  shows "list_all nonneg_counters (mailboxes (final (markAsRead c net i read s)))"
proof (cases "markAsRead_start i read s")
  case (Pair s1 r)
  then have s1: "mailboxes s1 = mailboxes s"
    by (auto simp: markAsRead_start_def Let_def split: if_splits option.splits)
  show ?thesis
  proof (cases r)
    case None
    with Pair s1 assms show ?thesis by (simp add: markAsRead_def)
  next
    case (Some call)
    from assms s1 have "list_all nonneg_counters (mailboxes s1)" by simp
    then have "list_all nonneg_counters (mailboxes (fst (markAsRead_finish i read (perform c net call) s1)))"
      by (cases "perform c net call")
         (simp_all add: markAsRead_finish_def markAsRead_rejected_def markAsRead_resolved_nonneg)
    with Pair Some show ?thesis
      by (simp add: markAsRead_def case_prod_unfold Let_def)
  qed
qed

subsection \<open>deleteEmail and moveToMailbox\<close>

lemma deleteEmail_trash_counters:
  assumes "find_email i s = Some e" "find_trash s = Some tm"
    "perform c net (Call_moveToTrash i (or_else (originalId tm) (mailbox_id tm))
       (shared_accountId s)) = Inr ()"
    "list_all nonneg_counters (mailboxes s)"
  shows "list_all2
           (\<lambda>mb mb'. adjusted
              (total_delta (in_mailbox e (mailbox_id mb))
                 (mailboxIds e \<noteq> None \<and> mailbox_id mb = mailbox_id tm))
              (unread_delta e (in_mailbox e (mailbox_id mb))
                 (mailboxIds e \<noteq> None \<and> mailbox_id mb = mailbox_id tm))
              mb mb')
           (mailboxes s) (mailboxes (final (deleteEmail c net ''trash'' i s)))"
proof -
  let ?f = "\<lambda>mb. if in_mailbox e (mailbox_id mb) then email_leaves (\<not> is_seen e) mb
                  else if mailbox_id mb = mailbox_id tm then email_arrives (\<not> is_seen e) mb
                  else mb"
  let ?g = "\<lambda>mb. if mailboxIds e \<noteq> None then ?f mb else mb"
  have "mailboxes (final (deleteEmail c net ''trash'' i s)) =
          (if mailboxIds e \<noteq> None then map ?f (mailboxes s) else mailboxes s)"
    using assms(1-3)
    by (simp add: deleteEmail_def deleteEmail_start_def deleteEmail_finish_def
        deleteEmail_trashed_def Let_def)
  then have eq: "mailboxes (final (deleteEmail c net ''trash'' i s)) = map ?g (mailboxes s)"
    by (simp add: map_idI)
  have "list_all2
           (\<lambda>mb mb'. adjusted
              (total_delta (in_mailbox e (mailbox_id mb))
                 (mailboxIds e \<noteq> None \<and> mailbox_id mb = mailbox_id tm))
              (unread_delta e (in_mailbox e (mailbox_id mb))
                 (mailboxIds e \<noteq> None \<and> mailbox_id mb = mailbox_id tm))
              mb mb')
           (mailboxes s) (map ?g (mailboxes s))"
  proof (rule adjusted_map)
    fix mb assume "mb \<in> set (mailboxes s)"
    with assms(4) have nn: "nonneg_counters mb" by (rule in_list_all)
    have none: "mailboxIds e = None \<Longrightarrow> \<not> in_mailbox e (mailbox_id mb)"
      by (simp add: in_mailbox_def)
    from nn none show "adjusted
        (total_delta (in_mailbox e (mailbox_id mb))
           (mailboxIds e \<noteq> None \<and> mailbox_id mb = mailbox_id tm))
        (unread_delta e (in_mailbox e (mailbox_id mb))
           (mailboxIds e \<noteq> None \<and> mailbox_id mb = mailbox_id tm))
        mb (?g mb)"
      using adjusted_leaves [of mb _ e] adjusted_arrives [of mb e] adjusted_stays [of mb e]
      by (cases "mailboxIds e = None") auto
  qed
  with eq show ?thesis by simp
qed

lemma deleteEmail_permanent_counters:
  assumes "find_email i s = Some e" "action \<noteq> ''trash'' \<or> find_trash s = None"
    "perform c net (Call_deleteEmail i) = Inr ()"
    "list_all nonneg_counters (mailboxes s)"
  shows "list_all2
           (\<lambda>mb mb'. adjusted (total_delta (in_mailbox e (mailbox_id mb)) False)
                        (unread_delta e (in_mailbox e (mailbox_id mb)) False) mb mb')
           (mailboxes s) (mailboxes (final (deleteEmail c net action i s)))"
proof -
  let ?f = "\<lambda>mb. if in_mailbox e (mailbox_id mb) then email_leaves (\<not> is_seen e) mb else mb"
  have start: "deleteEmail_start action i s = Some (Call_deleteEmail i, e, None)"
    using assms(1,2) by (auto simp: deleteEmail_start_def)
  have "mailboxes (deleteEmail_destroyed i e s) = map ?f (mailboxes s)"
  proof (cases "mailboxIds e")
    case None
    then have "in_mailbox e = (\<lambda>mb. False)" by (simp add: in_mailbox_def fun_eq_iff)
    with None show ?thesis by (simp add: deleteEmail_destroyed_def Let_def)
  next
    case (Some ids)
    then show ?thesis
      by (auto simp: deleteEmail_destroyed_def Let_def email_leaves_def)
  qed
  then have eq: "mailboxes (final (deleteEmail c net action i s)) = map ?f (mailboxes s)"
    using assms(3) by (simp add: deleteEmail_def start deleteEmail_finish_def)
  have "list_all2
           (\<lambda>mb mb'. adjusted (total_delta (in_mailbox e (mailbox_id mb)) False)
                        (unread_delta e (in_mailbox e (mailbox_id mb)) False) mb mb')
           (mailboxes s) (map ?f (mailboxes s))"
  proof (rule adjusted_map)
    fix mb assume "mb \<in> set (mailboxes s)"
    with assms(4) have nn: "nonneg_counters mb" by (rule in_list_all)
    then show "adjusted (total_delta (in_mailbox e (mailbox_id mb)) False)
                 (unread_delta e (in_mailbox e (mailbox_id mb)) False) mb (?f mb)"
      using adjusted_leaves [of mb False e] adjusted_stays [of mb e] by auto
  qed
  with eq show ?thesis by simp
qed

lemma moveToMailbox_counters:
  assumes "find_email i s = Some e"
    "perform c net (Call_moveEmail i dest) = Inr ()"
    "list_all nonneg_counters (mailboxes s)"
  shows "list_all2
           (\<lambda>mb mb'. adjusted
              (total_delta
                 (mailbox_id mb \<in> set (case mailboxIds e of Some ids \<Rightarrow> obj_keys ids | None \<Rightarrow> []))
                 (mailbox_id mb = dest))
              (unread_delta e
                 (mailbox_id mb \<in> set (case mailboxIds e of Some ids \<Rightarrow> obj_keys ids | None \<Rightarrow> []))
                 (mailbox_id mb = dest))
              mb mb')
           (mailboxes s) (mailboxes (final (moveToMailbox c net i dest s)))"
proof -
  let ?keys = "case mailboxIds e of Some ids \<Rightarrow> obj_keys ids | None \<Rightarrow> []"
  let ?f = "\<lambda>mb. if mailbox_id mb \<in> set ?keys then email_leaves (\<not> is_seen e) mb
                  else if mailbox_id mb = dest then email_arrives (\<not> is_seen e) mb
                  else mb"
  have eq: "mailboxes (final (moveToMailbox c net i dest s)) = map ?f (mailboxes s)"
    using assms(1,2)
    by (simp add: moveToMailbox_def moveToMailbox_start_def moveToMailbox_finish_def
        moveToMailbox_resolved_def Let_def)
  have "list_all2
           (\<lambda>mb mb'. adjusted (total_delta (mailbox_id mb \<in> set ?keys) (mailbox_id mb = dest))
              (unread_delta e (mailbox_id mb \<in> set ?keys) (mailbox_id mb = dest)) mb mb')
           (mailboxes s) (map ?f (mailboxes s))"
  proof (rule adjusted_map)
    fix mb assume "mb \<in> set (mailboxes s)"
    with assms(3) have nn: "nonneg_counters mb" by (rule in_list_all)
    then show "adjusted (total_delta (mailbox_id mb \<in> set ?keys) (mailbox_id mb = dest))
              (unread_delta e (mailbox_id mb \<in> set ?keys) (mailbox_id mb = dest)) mb (?f mb)"
      by (rule adjusted_transfer)
  qed
  with eq show ?thesis by simp
qed

lemma map_nonneg:
  assumes "list_all nonneg_counters mbs" "\<And>mb. nonneg_counters mb \<Longrightarrow> nonneg_counters (f mb)"
  shows "list_all nonneg_counters (map f mbs)"
  using assms by (simp add: list_all_iff)

lemma deleteEmail_nonneg:
  assumes "list_all nonneg_counters (mailboxes s)"
  shows "list_all nonneg_counters (mailboxes (final (deleteEmail c net action i s)))"
proof (cases "deleteEmail_start action i s")
  case None
  with assms show ?thesis by (simp add: deleteEmail_def)
next
  case (Some r)
  obtain call e trash where r: "r = (call, e, trash)" by (cases r)
  have t: "\<And>tm. list_all nonneg_counters (mailboxes (deleteEmail_trashed i e tm s))"
    using assms
    by (simp add: deleteEmail_trashed_def Let_def map_nonneg nonneg_transfer)
  have d: "list_all nonneg_counters (mailboxes (deleteEmail_destroyed i e s))"
    using assms
    by (auto simp: deleteEmail_destroyed_def Let_def nonneg_counters_def intro!: map_nonneg)
  from t d assms have
    "list_all nonneg_counters (mailboxes (fst (deleteEmail_finish i e trash (perform c net call) s)))"
    by (simp add: deleteEmail_finish_def split: sum.splits option.splits)
  with Some r show ?thesis
    by (simp add: deleteEmail_def case_prod_unfold Let_def)
qed

lemma moveToMailbox_nonneg:
  assumes "list_all nonneg_counters (mailboxes s)"
  shows "list_all nonneg_counters (mailboxes (final (moveToMailbox c net i dest s)))"
proof (cases "moveToMailbox_start i dest s")
  case None
  with assms show ?thesis by (simp add: moveToMailbox_def)
next
  case (Some r)
  obtain call e where r: "r = (call, e)" by (cases r)
  have "list_all nonneg_counters (mailboxes (moveToMailbox_resolved i dest e s))"
    using assms
    by (simp add: moveToMailbox_resolved_def Let_def map_nonneg nonneg_transfer)
  with assms have
    "list_all nonneg_counters (mailboxes (fst (moveToMailbox_finish i dest e (perform c net call) s)))"
    by (simp add: moveToMailbox_finish_def split: sum.splits)
  with Some r show ?thesis
    by (simp add: moveToMailbox_def case_prod_unfold Let_def)
qed

subsection \<open>Batch operations\<close>

lemma deltaUnread_markAsRead_sum:
  assumes "mailbox_id mb \<notin> set Object_prototype_keys"
  shows "deltaUnread_markAsRead read es mb = sum_list (map (\<lambda>e. read_delta read e mb) es)"
proof -
  note m = in_mailbox_member [OF assms]
  have "\<And>a. foldl (\<lambda>deltaUnread email.
              if in_mailbox email (mailbox_id mb) then
                (if is_seen email \<noteq> read then deltaUnread + (if read then - 1 else 1)
                 else deltaUnread)
              else deltaUnread) a es = a + sum_list (map (\<lambda>e. read_delta read e mb) es)"
    by (induction es) (simp_all add: read_delta_def m)
  then show ?thesis by (simp add: deltaUnread_markAsRead_def)
qed

lemma deltaTotal_delete_count:
  assumes "mailbox_id mb \<notin> set Object_prototype_keys"
  shows "deltaTotal_delete es mb = - int (length (members mb es))"
proof -
  note m = in_mailbox_member [OF assms]
  have "\<And>a. foldl (\<lambda>deltaTotalEmails email.
              if in_mailbox email (mailbox_id mb) then deltaTotalEmails - 1 else deltaTotalEmails)
           a es = a - int (length (members mb es))"
    by (induction es) (simp_all add: members_def m)
  then show ?thesis by (simp add: deltaTotal_delete_def)
qed

lemma deltaUnread_delete_sum:
  assumes "mailbox_id mb \<notin> set Object_prototype_keys"
  shows "deltaUnread_delete es mb = - sum_list (map unread_weight (members mb es))"
proof -
  note m = in_mailbox_member [OF assms]
  have "\<And>a. foldl (\<lambda>deltaUnreadEmails email.
              if in_mailbox email (mailbox_id mb) then
                (if \<not> is_seen email then deltaUnreadEmails - 1 else deltaUnreadEmails)
              else deltaUnreadEmails) a es = a - sum_list (map unread_weight (members mb es))"
    by (induction es) (simp_all add: members_def unread_weight_def m)
  then show ?thesis by (simp add: deltaUnread_delete_def)
qed

lemma batchMarkAsRead_counters:
  assumes "selectedEmailIds s \<noteq> []"
    "perform c net (Call_batchMarkAsRead (selectedEmailIds s) read) = Inr ()"
    "list_all nonneg_counters (mailboxes s)" "ordinary_ids (mailboxes s)"
  shows "list_all2
           (\<lambda>mb mb'. adjusted 0 (sum_list (map (\<lambda>e. read_delta read e mb) (selected_emails s))) mb mb')
           (mailboxes s) (mailboxes (final (batchMarkAsRead c net read s)))"
proof -
  let ?d = "\<lambda>mb. sum_list (map (\<lambda>e. read_delta read e mb) (selected_emails s))"
  let ?f = "\<lambda>mb. mb\<lparr>unreadEmails :=
                        max 0 (unreadEmails mb + deltaUnread_markAsRead read (selected_emails s) mb),
                      unreadThreads :=
                        max 0 (unreadThreads mb + deltaUnread_markAsRead read (selected_emails s) mb)\<rparr>"
  have eq: "mailboxes (final (batchMarkAsRead c net read s)) = map ?f (mailboxes s)"
    using assms(1,2)
    by (simp add: batchMarkAsRead_def batch_start_def batchMarkAsRead_finish_def Let_def
        selected_emails_def)
  have "list_all2 (\<lambda>mb mb'. adjusted 0 (?d mb) mb mb') (mailboxes s) (map ?f (mailboxes s))"
  proof (rule adjusted_map)
    fix mb assume mb: "mb \<in> set (mailboxes s)"
    with assms(3) have "nonneg_counters mb" by (rule in_list_all)
    then show "adjusted 0 (?d mb) mb (?f mb)"
      by (simp add: adjusted_def nonneg_counters_def
          deltaUnread_markAsRead_sum [OF ordinary_id [OF assms(4) mb]])
  qed
  with eq show ?thesis by simp
qed

lemma batchDelete_counters:
  assumes "selectedEmailIds s \<noteq> []"
    "perform c net (Call_batchDeleteEmails (selectedEmailIds s)) = Inr ()"
    "ordinary_ids (mailboxes s)"
  shows "list_all2
           (\<lambda>mb mb'. adjusted (- int (length (members mb (selected_emails s))))
                        (- sum_list (map unread_weight (members mb (selected_emails s)))) mb mb')
           (mailboxes s) (mailboxes (final (batchDelete c net s)))"
proof -
  let ?dT = "\<lambda>mb. - int (length (members mb (selected_emails s)))"
  let ?dU = "\<lambda>mb. - sum_list (map unread_weight (members mb (selected_emails s)))"
  let ?f = "\<lambda>mb. mb\<lparr>totalEmails := max 0 (totalEmails mb + deltaTotal_delete (selected_emails s) mb),
                      unreadEmails := max 0 (unreadEmails mb + deltaUnread_delete (selected_emails s) mb),
                      totalThreads := max 0 (totalThreads mb + deltaTotal_delete (selected_emails s) mb),
                      unreadThreads := max 0 (unreadThreads mb + deltaUnread_delete (selected_emails s) mb)\<rparr>"
  have eq: "mailboxes (final (batchDelete c net s)) = map ?f (mailboxes s)"
    using assms(1,2)
    by (simp add: batchDelete_def batch_start_def batchDelete_finish_def Let_def
        selected_emails_def)
  have "list_all2 (\<lambda>mb mb'. adjusted (?dT mb) (?dU mb) mb mb') (mailboxes s) (map ?f (mailboxes s))"
  proof (rule adjusted_map)
    fix mb assume mb: "mb \<in> set (mailboxes s)"
    note o = ordinary_id [OF assms(3) mb]
    show "adjusted (?dT mb) (?dU mb) mb (?f mb)"
      by (simp add: adjusted_def deltaTotal_delete_count [OF o] deltaUnread_delete_sum [OF o])
  qed
  with eq show ?thesis by simp
qed

lemma fetchEmails_mailboxes [simp]:
  "mailboxes (fetchEmails c net pageSize mailboxId s) = mailboxes s"
  by (simp add: fetchEmails_def Let_def)

lemma batchMoveToMailbox_mailboxes:
  "mailboxes (final (batchMoveToMailbox c net pageSize dest s)) = mailboxes s"
  by (simp add: batchMoveToMailbox_def batch_start_def split: sum.splits)

lemma batchMarkAsRead_nonneg:
  assumes "list_all nonneg_counters (mailboxes s)"
  shows "list_all nonneg_counters (mailboxes (final (batchMarkAsRead c net read s)))"
  using assms
  by (auto simp: batchMarkAsRead_def batch_start_def batchMarkAsRead_finish_def Let_def
      list_all_iff nonneg_counters_def split: sum.splits)

lemma batchDelete_nonneg:
  assumes "list_all nonneg_counters (mailboxes s)"
  shows "list_all nonneg_counters (mailboxes (final (batchDelete c net s)))"
  using assms
  by (auto simp: batchDelete_def batch_start_def batchDelete_finish_def Let_def
      list_all_iff nonneg_counters_def split: sum.splits)

subsection \<open>The claim\<close>

lemma net_ok_perform: "perform ex_client net_ok call = Inr ()"
  by (cases call)
     (simp_all add: client_markAsRead_def client_toggleStar_def client_moveToTrash_def
        client_deleteEmail_def client_moveEmail_def client_batchMarkAsRead_def
        client_batchDeleteEmails_def client_batchMoveEmails_def await_request_def request_def
        net_ok_def ex_client_def)

lemma ex_store_a_read_eq:
  "ex_store_a_read =
     ex_store\<lparr>emails := [ex_mail ''a'' ''t1'' True 100 ''inbox'',
                          ex_mail ''b'' ''t2'' True 200 ''inbox'',
                          ex_mail ''c'' ''t1'' False 300 ''inbox''],
              mailboxes := [ex_mailbox ''inbox'' ''inbox'' 3 1 2 0,
                            ex_mailbox ''trash'' ''trash'' 0 0 0 0]\<rparr>"
proof -
  have key: "processingKey ''a'' True \<notin> processingReadStatus ex_store"
    by (simp add: ex_store_def)
  have "ex_store_a_read =
      markAsRead_resolved ''a'' True
        (ex_store\<lparr>processingReadStatus := {processingKey ''a'' True}\<rparr>)"
    unfolding ex_store_a_read_def
    by (simp add: markAsRead_run [OF ex_store_find(1) _ key] net_ok_perform
        markAsRead_finish_def Let_def) (simp add: ex_store_def)
  also have "\<dots> = ex_store\<lparr>emails := [ex_mail ''a'' ''t1'' True 100 ''inbox'',
                          ex_mail ''b'' ''t2'' True 200 ''inbox'',
                          ex_mail ''c'' ''t1'' False 300 ''inbox''],
              mailboxes := [ex_mailbox ''inbox'' ''inbox'' 3 1 2 0,
                            ex_mailbox ''trash'' ''trash'' 0 0 0 0]\<rparr>"
    by (simp add: markAsRead_resolved_def ex_store_find Let_def on_selected_def)
       (simp add: ex_store_def ex_page_def ex_mail_def ex_mailbox_def in_mailbox_def Object_prototype_keys_def obj_get_def
          with_keyword_def obj_set_def)
  finally show ?thesis .
qed

text \<open>
  Claim C1 as stated fails on the thread counters.  In \<open>ex_store\<close> the inbox has one
  unread thread, \<open>t1\<close>, with the unread emails \<open>a\<close> and \<open>c\<close>.  Marking \<open>a\<close> as read
  takes \<^verbatim>\<open>unreadThreads\<close> from 1 to 0 although \<open>c\<close> keeps the thread unread; marking
  \<open>c\<close> as read then takes \<^verbatim>\<open>unreadEmails\<close> from 1 to 0 and leaves \<^verbatim>\<open>unreadThreads\<close>
  at 0, where the same transition moved it by \<open>- 1\<close> before: the counter is clamped, not
  adjusted by the delta of the transition.
\<close>

theorem counters_exact_delta_counterexample:
  "map unreadEmails (mailboxes ex_store) = [2, 0] \<and>
   map unreadThreads (mailboxes ex_store) = [1, 0] \<and>
   map unreadEmails (mailboxes ex_store_a_read) = [1, 0] \<and>
   map unreadThreads (mailboxes ex_store_a_read) = [0, 0] \<and>
   find_email ''c'' ex_store_a_read = Some (ex_mail ''c'' ''t1'' False 300 ''inbox'') \<and>
   in_mailbox (ex_mail ''c'' ''t1'' False 300 ''inbox'') ''inbox'' \<and>
   thrown (markAsRead ex_client net_ok ''c'' True ex_store_a_read) = None \<and>
   map is_seen (emails (final (markAsRead ex_client net_ok ''c'' True ex_store_a_read))) =
     [True, True, True] \<and>
   map unreadEmails (mailboxes (final (markAsRead ex_client net_ok ''c'' True ex_store_a_read))) =
     [0, 0] \<and>
   map unreadThreads (mailboxes (final (markAsRead ex_client net_ok ''c'' True ex_store_a_read))) =
     [0, 0] \<and>
   map unreadThreads (mailboxes (final (markAsRead ex_client net_ok ''c'' True ex_store_a_read))) \<noteq>
     [0 - 1, 0]"
proof -
  have f: "find_email ''c'' ex_store_a_read = Some (ex_mail ''c'' ''t1'' False 300 ''inbox'')"
    by (simp add: ex_store_a_read_eq find_email_def) (simp add: ex_mail_def)
  have key: "processingKey ''c'' True \<notin> processingReadStatus ex_store_a_read"
    by (simp add: ex_store_a_read_eq) (simp add: ex_store_def)
  have run: "markAsRead ex_client net_ok ''c'' True ex_store_a_read =
      \<lparr> final = markAsRead_resolved ''c'' True
                  (ex_store_a_read\<lparr>processingReadStatus := {processingKey ''c'' True}\<rparr>),
        calls = [Call_markAsRead ''c'' True (shared_accountId ex_store_a_read)], thrown = None \<rparr>"
    by (simp add: markAsRead_run [OF f _ key] net_ok_perform markAsRead_finish_def Let_def)
       (simp add: ex_store_a_read_eq, simp add: ex_store_def)
  show ?thesis
    apply (intro conjI)
    apply (simp_all add: f run markAsRead_resolved_def Let_def)
    apply (simp_all add: ex_store_a_read_eq)
    apply (simp_all add: ex_store_def ex_page_def ex_mailbox_def in_mailbox_def Object_prototype_keys_def ex_mail_def
        obj_get_def with_keyword_def is_seen_def keyword_set_def obj_set_def)
    done
qed

lemma member_key:
  "member_of e k \<Longrightarrow> k \<in> set (case mailboxIds e of Some ids \<Rightarrow> obj_keys ids | None \<Rightarrow> [])"
  by (auto simp: member_of_def obj_get_def obj_keys_def split: option.splits
      dest: map_of_SomeD intro: rev_image_eqI)

lemma deleteEmail_trash_transition:
  assumes "find_email i s = Some e" "find_trash s = Some tm"
    "perform c net (Call_moveToTrash i (or_else (originalId tm) (mailbox_id tm))
       (shared_accountId s)) = Inr ()"
    "list_all nonneg_counters (mailboxes s)" "mailboxIds e \<noteq> None"
    "ordinary_ids (mailboxes s)"
  shows "list_all2
           (\<lambda>mb mb'. adjusted
              (total_delta (member_of e (mailbox_id mb)) (mailbox_id mb = mailbox_id tm))
              (unread_delta e (member_of e (mailbox_id mb)) (mailbox_id mb = mailbox_id tm))
              mb mb')
           (mailboxes s) (mailboxes (final (deleteEmail c net ''trash'' i s)))"
proof (rule adjusted_cong [OF deleteEmail_trash_counters [OF assms(1-4)]])
  fix mb assume "mb \<in> set (mailboxes s)"
  with assms(6) have "in_mailbox e (mailbox_id mb) = member_of e (mailbox_id mb)"
    by (intro in_mailbox_member ordinary_id)
  with assms(5) show
    "total_delta (in_mailbox e (mailbox_id mb))
       (mailboxIds e \<noteq> None \<and> mailbox_id mb = mailbox_id tm) =
     total_delta (member_of e (mailbox_id mb)) (mailbox_id mb = mailbox_id tm) \<and>
     unread_delta e (in_mailbox e (mailbox_id mb))
       (mailboxIds e \<noteq> None \<and> mailbox_id mb = mailbox_id tm) =
     unread_delta e (member_of e (mailbox_id mb)) (mailbox_id mb = mailbox_id tm)"
    by simp
qed

lemma deleteEmail_permanent_transition:
  assumes "find_email i s = Some e" "action \<noteq> ''trash'' \<or> find_trash s = None"
    "perform c net (Call_deleteEmail i) = Inr ()"
    "list_all nonneg_counters (mailboxes s)" "ordinary_ids (mailboxes s)"
  shows "list_all2
           (\<lambda>mb mb'. adjusted (total_delta (member_of e (mailbox_id mb)) False)
                        (unread_delta e (member_of e (mailbox_id mb)) False) mb mb')
           (mailboxes s) (mailboxes (final (deleteEmail c net action i s)))"
proof (rule adjusted_cong [OF deleteEmail_permanent_counters [OF assms(1-4)]])
  fix mb assume "mb \<in> set (mailboxes s)"
  with assms(5) have "in_mailbox e (mailbox_id mb) = member_of e (mailbox_id mb)"
    by (intro in_mailbox_member ordinary_id)
  then show
    "total_delta (in_mailbox e (mailbox_id mb)) False =
     total_delta (member_of e (mailbox_id mb)) False \<and>
     unread_delta e (in_mailbox e (mailbox_id mb)) False =
     unread_delta e (member_of e (mailbox_id mb)) False"
    by simp
qed

lemma moveToMailbox_transition:
  assumes "find_email i s = Some e" "perform c net (Call_moveEmail i dest) = Inr ()"
    "list_all nonneg_counters (mailboxes s)"
    "list_all (member_of e) (case mailboxIds e of Some ids \<Rightarrow> obj_keys ids | None \<Rightarrow> [])"
  shows "list_all2
           (\<lambda>mb mb'. adjusted
              (total_delta (member_of e (mailbox_id mb)) (mailbox_id mb = dest))
              (unread_delta e (member_of e (mailbox_id mb)) (mailbox_id mb = dest))
              mb mb')
           (mailboxes s) (mailboxes (final (moveToMailbox c net i dest s)))"
proof -
  have "\<And>k. (k \<in> set (case mailboxIds e of Some ids \<Rightarrow> obj_keys ids | None \<Rightarrow> [])) =
             member_of e k"
    using assms(4) member_key [of e] by (auto simp: list_all_iff)
  with moveToMailbox_counters [OF assms(1-3)] show ?thesis
    by simp
qed

text \<open>
  Claim C1, amended.  It is about one operation of the store that runs from its start
  to its end with no other operation of the store running while it awaits the
  client.  Let the counters of all mailboxes of the store be non-negative.
  After \<^verbatim>\<open>markAsRead\<close>, \<^verbatim>\<open>deleteEmail\<close>, \<^verbatim>\<open>moveToMailbox\<close> and each batch variant they
  still are.  When the client call succeeds, every mailbox keeps its id and each counter
  \<open>c\<close> becomes \<open>max 0 (c + d)\<close>, which is \<open>c + d\<close> unless that is negative, the email and
  the thread counters moving by the same deltas \<open>d\<close>.  An email is in a mailbox when
  its \<^verbatim>\<open>mailboxIds\<close> has the id of the mailbox with the value true, and where the store
  tests that (all operations below but \<^verbatim>\<open>moveToMailbox\<close>) the ids of the mailboxes are
  taken to be ordinary, none of them the name of a property inherited from
  \<^verbatim>\<open>Object.prototype\<close>:
  \<^item> \<^verbatim>\<open>markAsRead\<close> of an email with the other flag: the unread counters of the
    mailboxes it is in move by \<open>- 1\<close> (to read) or \<open>1\<close> (to unread);
  \<^item> \<^verbatim>\<open>deleteEmail\<close> in trash mode, of an email that is not in the trash mailbox yet:
    the mailboxes the email is in move by \<open>- 1\<close> and the trash mailbox by \<open>1\<close>, the
    unread counters only for an unread email;
  \<^item> \<^verbatim>\<open>deleteEmail\<close> otherwise: the mailboxes the email is in move by \<open>- 1\<close>;
  \<^item> \<^verbatim>\<open>moveToMailbox\<close>, of an email that is not in the destination yet and whose
    \<^verbatim>\<open>mailboxIds\<close> has only true values: the mailboxes the email is in move by \<open>- 1\<close>
    and the destination by \<open>1\<close>;
  \<^item> \<^verbatim>\<open>batchMarkAsRead\<close> and \<^verbatim>\<open>batchDelete\<close>: the sums of these deltas over the
    selected emails of the page.
\<close>

theorem counters_adjusted_clamped:
  assumes "list_all nonneg_counters (mailboxes s)"
  shows
  "(\<forall>e. ordinary_ids (mailboxes s) \<and> find_email i s = Some e \<and> is_seen e \<noteq> read \<and>
        processingKey i read \<notin> processingReadStatus s \<and>
        perform c net (Call_markAsRead i read (shared_accountId s)) = Inr () \<longrightarrow>
        list_all2 (\<lambda>mb mb'. adjusted 0 (read_delta read e mb) mb mb')
          (mailboxes s) (mailboxes (final (markAsRead c net i read s)))) \<and>
   (\<forall>e tm. ordinary_ids (mailboxes s) \<and> find_email i s = Some e \<and> find_trash s = Some tm \<and>
        mailboxIds e \<noteq> None \<and> \<not> member_of e (mailbox_id tm) \<and>
        perform c net (Call_moveToTrash i (or_else (originalId tm) (mailbox_id tm))
          (shared_accountId s)) = Inr () \<longrightarrow>
        list_all2
          (\<lambda>mb mb'. adjusted
             (total_delta (member_of e (mailbox_id mb)) (mailbox_id mb = mailbox_id tm))
             (unread_delta e (member_of e (mailbox_id mb)) (mailbox_id mb = mailbox_id tm))
             mb mb')
          (mailboxes s) (mailboxes (final (deleteEmail c net ''trash'' i s)))) \<and>
   (\<forall>e. ordinary_ids (mailboxes s) \<and> find_email i s = Some e \<and>
        (action \<noteq> ''trash'' \<or> find_trash s = None) \<and>
        perform c net (Call_deleteEmail i) = Inr () \<longrightarrow>
        list_all2
          (\<lambda>mb mb'. adjusted (total_delta (member_of e (mailbox_id mb)) False)
                       (unread_delta e (member_of e (mailbox_id mb)) False) mb mb')
          (mailboxes s) (mailboxes (final (deleteEmail c net action i s)))) \<and>
   (\<forall>e. find_email i s = Some e \<and>
        list_all (member_of e) (case mailboxIds e of Some ids \<Rightarrow> obj_keys ids | None \<Rightarrow> []) \<and>
        \<not> member_of e dest \<and>
        perform c net (Call_moveEmail i dest) = Inr () \<longrightarrow>
        list_all2
          (\<lambda>mb mb'. adjusted
             (total_delta (member_of e (mailbox_id mb)) (mailbox_id mb = dest))
             (unread_delta e (member_of e (mailbox_id mb)) (mailbox_id mb = dest))
             mb mb')
          (mailboxes s) (mailboxes (final (moveToMailbox c net i dest s)))) \<and>
   (ordinary_ids (mailboxes s) \<and> selectedEmailIds s \<noteq> [] \<and>
      perform c net (Call_batchMarkAsRead (selectedEmailIds s) read) = Inr () \<longrightarrow>
      list_all2
        (\<lambda>mb mb'. adjusted 0 (sum_list (map (\<lambda>e. read_delta read e mb) (selected_emails s))) mb mb')
        (mailboxes s) (mailboxes (final (batchMarkAsRead c net read s)))) \<and>
   (ordinary_ids (mailboxes s) \<and> selectedEmailIds s \<noteq> [] \<and>
      perform c net (Call_batchDeleteEmails (selectedEmailIds s)) = Inr () \<longrightarrow>
      list_all2
        (\<lambda>mb mb'. adjusted (- int (length (members mb (selected_emails s))))
                     (- sum_list (map unread_weight (members mb (selected_emails s)))) mb mb')
        (mailboxes s) (mailboxes (final (batchDelete c net s)))) \<and>
   list_all nonneg_counters (mailboxes (final (markAsRead c net i read s))) \<and>
   list_all nonneg_counters (mailboxes (final (deleteEmail c net action i s))) \<and>
   list_all nonneg_counters (mailboxes (final (moveToMailbox c net i dest s))) \<and>
   list_all nonneg_counters (mailboxes (final (batchMarkAsRead c net read s))) \<and>
   list_all nonneg_counters (mailboxes (final (batchDelete c net s))) \<and>
   list_all nonneg_counters (mailboxes (final (batchMoveToMailbox c net pageSize dest s)))"
proof (intro conjI allI impI)
  fix e
  assume "ordinary_ids (mailboxes s) \<and> find_email i s = Some e \<and> is_seen e \<noteq> read \<and>
        processingKey i read \<notin> processingReadStatus s \<and>
        perform c net (Call_markAsRead i read (shared_accountId s)) = Inr ()"
  with assms show "list_all2 (\<lambda>mb mb'. adjusted 0 (read_delta read e mb) mb mb')
          (mailboxes s) (mailboxes (final (markAsRead c net i read s)))"
    by (intro markAsRead_counters) blast+
next
  fix e tm
  assume "ordinary_ids (mailboxes s) \<and> find_email i s = Some e \<and> find_trash s = Some tm \<and>
        mailboxIds e \<noteq> None \<and> \<not> member_of e (mailbox_id tm) \<and>
        perform c net (Call_moveToTrash i (or_else (originalId tm) (mailbox_id tm))
          (shared_accountId s)) = Inr ()"
  with assms show "list_all2
          (\<lambda>mb mb'. adjusted
             (total_delta (member_of e (mailbox_id mb)) (mailbox_id mb = mailbox_id tm))
             (unread_delta e (member_of e (mailbox_id mb)) (mailbox_id mb = mailbox_id tm))
             mb mb')
          (mailboxes s) (mailboxes (final (deleteEmail c net ''trash'' i s)))"
    by (intro deleteEmail_trash_transition) blast+
next
  fix e
  assume "ordinary_ids (mailboxes s) \<and> find_email i s = Some e \<and>
        (action \<noteq> ''trash'' \<or> find_trash s = None) \<and>
        perform c net (Call_deleteEmail i) = Inr ()"
  with assms show "list_all2
          (\<lambda>mb mb'. adjusted (total_delta (member_of e (mailbox_id mb)) False)
                       (unread_delta e (member_of e (mailbox_id mb)) False) mb mb')
          (mailboxes s) (mailboxes (final (deleteEmail c net action i s)))"
    by (intro deleteEmail_permanent_transition) blast+
next
  fix e
  assume "find_email i s = Some e \<and>
        list_all (member_of e) (case mailboxIds e of Some ids \<Rightarrow> obj_keys ids | None \<Rightarrow> []) \<and>
        \<not> member_of e dest \<and>
        perform c net (Call_moveEmail i dest) = Inr ()"
  with assms show "list_all2
          (\<lambda>mb mb'. adjusted
             (total_delta (member_of e (mailbox_id mb)) (mailbox_id mb = dest))
             (unread_delta e (member_of e (mailbox_id mb)) (mailbox_id mb = dest))
             mb mb')
          (mailboxes s) (mailboxes (final (moveToMailbox c net i dest s)))"
    by (intro moveToMailbox_transition) blast+
next
  assume "ordinary_ids (mailboxes s) \<and> selectedEmailIds s \<noteq> [] \<and>
      perform c net (Call_batchMarkAsRead (selectedEmailIds s) read) = Inr ()"
  with assms show "list_all2
        (\<lambda>mb mb'. adjusted 0 (sum_list (map (\<lambda>e. read_delta read e mb) (selected_emails s))) mb mb')
        (mailboxes s) (mailboxes (final (batchMarkAsRead c net read s)))"
    by (intro batchMarkAsRead_counters) blast+
next
  assume "ordinary_ids (mailboxes s) \<and> selectedEmailIds s \<noteq> [] \<and>
      perform c net (Call_batchDeleteEmails (selectedEmailIds s)) = Inr ()"
  then show "list_all2
        (\<lambda>mb mb'. adjusted (- int (length (members mb (selected_emails s))))
                     (- sum_list (map unread_weight (members mb (selected_emails s)))) mb mb')
        (mailboxes s) (mailboxes (final (batchDelete c net s)))"
    by (intro batchDelete_counters) blast+
next
  from assms show "list_all nonneg_counters
      (mailboxes (final (batchMoveToMailbox c net pageSize dest s)))"
    by (simp add: batchMoveToMailbox_mailboxes)
qed (simp_all add: assms markAsRead_nonneg deleteEmail_nonneg moveToMailbox_nonneg
      batchMarkAsRead_nonneg batchDelete_nonneg)

theorem counters_adjusted_clamped_witness:
  "list_all nonneg_counters (mailboxes ex_store) \<and>
   ordinary_ids (mailboxes ex_store) \<and>
   find_email ''a'' ex_store = Some (ex_mail ''a'' ''t1'' False 100 ''inbox'') \<and>
   find_trash ex_store = Some (ex_mailbox ''trash'' ''trash'' 0 0 0 0) \<and>
   mailboxIds (ex_mail ''a'' ''t1'' False 100 ''inbox'') \<noteq> None \<and>
   member_of (ex_mail ''a'' ''t1'' False 100 ''inbox'') ''inbox'' \<and>
   \<not> member_of (ex_mail ''a'' ''t1'' False 100 ''inbox'') ''trash'' \<and>
   perform ex_client net_ok (Call_moveToTrash ''a'' ''trash'' None) = Inr () \<and>
   map mailbox_id (mailboxes ex_store) = [''inbox'', ''trash''] \<and>
   map totalEmails (mailboxes ex_store) = [3, 0] \<and>
   map unreadEmails (mailboxes ex_store) = [2, 0] \<and>
   map mailbox_id (mailboxes (final (deleteEmail ex_client net_ok ''trash'' ''a'' ex_store))) =
     [''inbox'', ''trash''] \<and>
   map totalEmails (mailboxes (final (deleteEmail ex_client net_ok ''trash'' ''a'' ex_store))) = [2, 1] \<and>
   map unreadEmails (mailboxes (final (deleteEmail ex_client net_ok ''trash'' ''a'' ex_store))) = [1, 1] \<and>
   map totalThreads (mailboxes (final (deleteEmail ex_client net_ok ''trash'' ''a'' ex_store))) = [1, 1] \<and>
   map unreadThreads (mailboxes (final (deleteEmail ex_client net_ok ''trash'' ''a'' ex_store))) = [0, 1] \<and>
   list_all nonneg_counters (mailboxes (final (deleteEmail ex_client net_ok ''trash'' ''a'' ex_store)))"
proof -
  let ?F = "final (deleteEmail ex_client net_ok ''trash'' ''a'' ex_store)"
  let ?e = "ex_mail ''a'' ''t1'' False 100 ''inbox''"
  let ?tm = "ex_mailbox ''trash'' ''trash'' 0 0 0 0"
  have nn: "list_all nonneg_counters (mailboxes ex_store)"
    by (simp add: ex_store_def ex_mailbox_def nonneg_counters_def)
  have ord: "ordinary_ids (mailboxes ex_store)"
    by (simp add: ordinary_ids_def ex_store_def ex_mailbox_def Object_prototype_keys_def)
  have acc: "shared_accountId ex_store = None"
    by (simp add: shared_accountId_def ex_store_def ex_mailbox_def is_shared_def)
  have tr: "find_trash ex_store = Some ?tm"
    by (simp add: find_trash_def acc truthy_str_def) (simp add: ex_store_def ex_mailbox_def is_shared_def)
  have pf: "perform ex_client net_ok (Call_moveToTrash ''a'' ''trash'' None) = Inr ()"
    by (rule net_ok_perform)
  have oe: "or_else (originalId ?tm) (mailbox_id ?tm) = ''trash''"
    by (simp add: or_else_def truthy_str_def ex_mailbox_def)
  have mem: "mailboxIds ?e \<noteq> None" "member_of ?e ''inbox''" "\<not> member_of ?e ''trash''"
    by (simp_all add: ex_mail_def member_of_def obj_get_def)
  have tid: "mailbox_id ?tm = ''trash''"
    by (simp add: ex_mailbox_def)
  have oe': "or_else (originalId ?tm) ''trash'' = ''trash''"
    by (simp add: or_else_def truthy_str_def ex_mailbox_def)
  note t = counters_adjusted_clamped [OF nn, where i = "''a''" and c = ex_client and net = net_ok
      and action = "''trash''"]
  note t2 = t [THEN conjunct2, THEN conjunct1, rule_format, of ?e ?tm]
  have adj: "list_all2
          (\<lambda>mb mb'. adjusted
             (total_delta (member_of ?e (mailbox_id mb)) (mailbox_id mb = mailbox_id ?tm))
             (unread_delta ?e (member_of ?e (mailbox_id mb)) (mailbox_id mb = mailbox_id ?tm))
             mb mb')
          (mailboxes ex_store) (mailboxes ?F)"
    by (rule t2) (simp add: ord ex_store_find tr pf [simplified] oe oe' acc mem tid)
  from t [where read = True and dest = "''trash''" and pageSize = 50]
  have nn': "list_all nonneg_counters (mailboxes ?F)"
    by (elim conjE) assumption
  have mbs: "mailboxes ex_store = [ex_mailbox ''inbox'' ''inbox'' 3 2 2 1, ?tm]"
    by (simp add: ex_store_def)
  from adj obtain m1 m2 where F: "mailboxes ?F = [m1, m2]"
    and m1: "adjusted (- 1) (- 1) (ex_mailbox ''inbox'' ''inbox'' 3 2 2 1) m1"
    and m2: "adjusted 1 1 ?tm m2"
    unfolding mbs
    by (auto simp: list_all2_Cons1 total_delta_def unread_delta_def unread_weight_def
        member_of_def ex_mail_def ex_mailbox_def obj_get_def is_seen_def keyword_set_def)
  have vals: "map mailbox_id (mailboxes ?F) = [''inbox'', ''trash'']"
    "map totalEmails (mailboxes ?F) = [2, 1]"
    "map unreadEmails (mailboxes ?F) = [1, 1]"
    "map totalThreads (mailboxes ?F) = [1, 1]"
    "map unreadThreads (mailboxes ?F) = [0, 1]"
    using m1 m2 by (simp_all add: F adjusted_def ex_mailbox_def)
  have before: "map mailbox_id (mailboxes ex_store) = [''inbox'', ''trash'']"
    "map totalEmails (mailboxes ex_store) = [3, 0]"
    "map unreadEmails (mailboxes ex_store) = [2, 0]"
    by (simp_all add: mbs ex_mailbox_def)
  show ?thesis
    by (intro conjI) (fact nn ord ex_store_find(1) tr mem pf before vals nn')+
qed

section \<open>Exporting and importing the settings\<close>

lemma foldl_obj_set_fresh:
  "distinct (map fst ps) \<Longrightarrow> fst ` set ps \<inter> fst ` set acc = {} \<Longrightarrow>
   foldl (\<lambda>obj member. obj_set (fst member) (snd member) obj) acc ps = acc @ ps"
proof (induction ps arbitrary: acc)
  case Nil
  show ?case by simp
next
  case (Cons p ps)
  from Cons.prems have fresh: "fst p \<notin> fst ` set acc" by auto
  have step: "obj_set (fst p) (snd p) acc = acc @ [p]"
    using fresh by (simp add: obj_set_def update_fresh)
  from Cons.prems have "fst ` set ps \<inter> fst ` set (acc @ [p]) = {}"
    by auto
  with Cons.prems Cons.IH [of "acc @ [p]"] show ?case
    by (simp add: step)
qed

lemma object_of_distinct: "distinct (map fst ps) \<Longrightarrow> object_of ps = ps"
  using foldl_obj_set_fresh [of ps "[]"] by (simp add: object_of_def)

lemma to_number_finite:
  "- double_overflow < q \<Longrightarrow> q < double_overflow \<Longrightarrow> to_number q = Finite q"
  by (simp add: to_number_def)

lemma parse_stringify: "representable v \<Longrightarrow> JSON_parse (JSON_stringify v) = v"
proof (induction v)
  case (JsNumber n)
  then show ?case by (cases n) (simp_all add: to_number_finite)
next
  case (JsArray xs)
  then have "map (\<lambda>x. JSON_parse (JSON_stringify x)) xs = map (\<lambda>x. x) xs"
    by (intro map_cong) (auto simp: list_all_iff)
  then show ?case by (simp add: comp_def)
next
  case (JsObject props)
  from JsObject.prems have d: "distinct (map fst props)"
    and r: "\<And>p. p \<in> set props \<Longrightarrow> representable (snd p)"
    by (auto simp: list_all_iff)
  have "map (map_prod id JSON_parse) (map (map_prod id JSON_stringify) props) = map (\<lambda>p. p) props"
    unfolding map_map
  proof (intro map_cong refl)
    fix p assume p: "p \<in> set props"
    obtain k v where kv: "p = (k, v)" by (cases p)
    with p have "v \<in> Basic_BNFs.snds p" by simp
    from JsObject.IH [OF p this] r [OF p] kv
    show "(map_prod id JSON_parse \<circ> map_prod id JSON_stringify) p = p"
      by simp
  qed
  moreover have "distinct (map fst (map (map_prod id JSON_stringify) props))"
    using d by (simp add: comp_def)
  ultimately show ?case
    using d by (simp add: object_of_distinct comp_def)
qed simp_all

lemma exported_keys_distinct: "distinct exported_keys"
  by (simp add: exported_keys_def)

lemma exported_keys_default: "map fst DEFAULT_SETTINGS = exported_keys"
  by (simp add: DEFAULT_SETTINGS_def exported_keys_def)

lemma exported_key_recognized:
  assumes "k \<in> set exported_keys"
  shows "key_in_DEFAULT_SETTINGS k" and "k \<noteq> ''__proto__''"
proof -
  from assms show "key_in_DEFAULT_SETTINGS k"
    by (simp add: key_in_DEFAULT_SETTINGS_def obj_has_def exported_keys_default)
  from assms show "k \<noteq> ''__proto__''"
    by (auto simp: exported_keys_def)
qed

lemma zustand_set_get:
  "obj_get (zustand_set x v st) k =
     (if k = x \<and> x \<noteq> ''__proto__'' then Some v else obj_get st k)"
  by (simp add: zustand_set_def obj_get_def obj_set_def update_conv')

text \<open>The loop of \<^verbatim>\<open>importSettings\<close>, property by property.\<close>

lemma import_loop_get:
  "obj_get (foldl (\<lambda>st key.
                     if key_in_DEFAULT_SETTINGS key then
                       (case obj_get props key of Some v \<Rightarrow> zustand_set key v st | None \<Rightarrow> st)
                     else st) state ks) k =
     (if k \<in> set ks \<and> key_in_DEFAULT_SETTINGS k \<and> k \<noteq> ''__proto__'' \<and> obj_get props k \<noteq> None
      then obj_get props k else obj_get state k)"
proof (induction ks arbitrary: state)
  case Nil
  show ?case by simp
next
  case (Cons x ks)
  show ?case
    by (cases "key_in_DEFAULT_SETTINGS x"; cases "obj_get props x")
       (auto simp: Cons.IH zustand_set_get)
qed

lemma import_loop_same:
  assumes "\<And>k. k \<in> set ks \<Longrightarrow> obj_get props k = obj_get state k \<and> obj_get state k \<noteq> None"
  shows "foldl (\<lambda>st key.
                  if key_in_DEFAULT_SETTINGS key then
                    (case obj_get props key of Some v \<Rightarrow> zustand_set key v st | None \<Rightarrow> st)
                  else st) state ks = state"
  using assms
proof (induction ks)
  case Nil
  show ?case by simp
next
  case (Cons x ks)
  from Cons.prems [of x] obtain v where v: "obj_get props x = Some v" "obj_get state x = Some v"
    by auto
  then have "zustand_set x v state = state"
    by (simp add: zustand_set_def obj_set_def obj_get_def update_triv)
  with v Cons show ?case by simp
qed

lemma obj_get_keys: "(obj_get props k \<noteq> None) = (k \<in> set (obj_keys props))"
  by (simp add: obj_get_def obj_keys_def map_of_eq_None_iff)

lemma import_keys_get:
  "obj_get (import_keys props state) k =
     (if key_in_DEFAULT_SETTINGS k \<and> k \<noteq> ''__proto__'' \<and> obj_get props k \<noteq> None
      then obj_get props k else obj_get state k)"
proof (cases "obj_get props k")
  case None
  then show ?thesis by (simp add: import_keys_def import_loop_get)
next
  case (Some v)
  with obj_get_keys [of props k] have "k \<in> set (obj_keys props)" by simp
  with Some show ?thesis by (simp add: import_keys_def import_loop_get)
qed

text \<open>The calls that apply the state to the document return exactly on the states
  called applicable.\<close>

lemma apply_visual_cases:
  "apply_visual document state = (if applicable document state then Inr () else Inl toPrimitive_TypeError)"
  by (simp add: apply_visual_def applicable_def applyFontSize_def applyListDensity_def
      applyAnimations_def property_access_def has_key_def split: option.splits)

lemma import_object:
  assumes "JSON_parse j = JsObject props"
  shows "importSettings document (Some j) state =
           (applicable document (import_keys props state), import_keys props state)"
  using assms by (simp add: importSettings_def Let_def apply_visual_cases)

text \<open>What \<^verbatim>\<open>exportSettings\<close> writes for a representable state, and reading it back.\<close>

lemma exported_object:
  assumes "representable_settings state"
  shows "List.map_filter (\<lambda>k. map_option (Pair k) (obj_get state k)) exported_keys =
           map (\<lambda>k. (k, the (obj_get state k))) exported_keys"
proof -
  have "\<And>ks. list_all (\<lambda>k. case obj_get state k of Some v \<Rightarrow> representable v | None \<Rightarrow> False) ks \<Longrightarrow>
        List.map_filter (\<lambda>k. map_option (Pair k) (obj_get state k)) ks =
          map (\<lambda>k. (k, the (obj_get state k))) ks"
  proof -
    fix ks
    show "list_all (\<lambda>k. case obj_get state k of Some v \<Rightarrow> representable v | None \<Rightarrow> False) ks \<Longrightarrow>
        List.map_filter (\<lambda>k. map_option (Pair k) (obj_get state k)) ks =
          map (\<lambda>k. (k, the (obj_get state k))) ks"
      by (induction ks) (auto split: option.splits)
  qed
  with assms show ?thesis by (simp add: representable_settings_def)
qed

lemma parse_export:
  assumes "representable_settings state"
  shows "JSON_parse (exportSettings state) =
           JsObject (map (\<lambda>k. (k, the (obj_get state k))) exported_keys)"
proof -
  have "representable (JsObject (map (\<lambda>k. (k, the (obj_get state k))) exported_keys))"
    using assms exported_keys_distinct
    by (auto simp: representable_settings_def list_all_iff comp_def split: option.splits)
  then show ?thesis
    by (simp only: exportSettings_def exported_object [OF assms] parse_stringify)
qed

lemma exported_get:
  assumes "representable_settings state" "k \<in> set exported_keys"
  shows "obj_get (map (\<lambda>k. (k, the (obj_get state k))) exported_keys) k = obj_get state k"
    and "obj_get state k \<noteq> None"
proof -
  from assms show ne: "obj_get state k \<noteq> None"
    by (auto simp: representable_settings_def list_all_iff split: option.splits)
  have "map_of (map (\<lambda>k. (k, the (obj_get state k))) exported_keys) k = Some (the (obj_get state k))"
    using assms(2) by (simp add: map_of_map_restrict)
  with ne show "obj_get (map (\<lambda>k. (k, the (obj_get state k))) exported_keys) k = obj_get state k"
    by (auto simp: obj_get_def)
qed

lemma roundtrip:
  assumes "representable_settings state"
  shows "importSettings document (Some (exportSettings state)) state =
           (applicable document state, state)"
proof -
  let ?E = "map (\<lambda>k. (k, the (obj_get state k))) exported_keys"
  have keys: "obj_keys ?E = exported_keys"
    by (simp add: obj_keys_def comp_def)
  have "foldl (\<lambda>st key.
                 if key_in_DEFAULT_SETTINGS key then
                   (case obj_get ?E key of Some v \<Rightarrow> zustand_set key v st | None \<Rightarrow> st)
                 else st) state exported_keys = state"
    by (rule import_loop_same) (simp add: exported_get [OF assms])
  then have "import_keys ?E state = state"
    by (simp add: import_keys_def keys)
  then show ?thesis
    by (simp add: import_object [OF parse_export [OF assms]])
qed

text \<open>Importing an export into any state restores the exported fields.\<close>

lemma restore:
  assumes "representable_settings state" "k \<in> set exported_keys"
  shows "obj_get (snd (importSettings document (Some (exportSettings state)) other)) k =
           obj_get state k"
  using exported_key_recognized [OF assms(2)] exported_get [OF assms]
  by (simp add: import_object [OF parse_export [OF assms(1)]] import_keys_get)

lemma ex_overflow_settings_eq:
  "ex_overflow_settings =
     [(''fontSize'', JsString ''medium''),
      (''listDensity'', JsString ''regular''),
      (''animationsEnabled'', JsBool True),
      (''dateFormat'', JsString ''regional''),
      (''timeFormat'', JsString ''24h''),
      (''firstDayOfWeek'', JsNumber (Finite 1)),
      (''markAsReadDelay'', JsNumber (Finite 0)),
      (''deleteAction'', JsString ''trash''),
      (''showPreview'', JsBool True),
      (''emailsPerPage'', JsNumber (Finite 50)),
      (''externalContentPolicy'', JsString ''ask''),
      (''autoSaveDraftInterval'', JsNumber (Finite 60000)),
      (''sendConfirmation'', JsBool False),
      (''defaultReplyMode'', JsString ''reply''),
      (''sessionTimeout'', JsNumber PosInfinity),
      (''debugMode'', JsBool False)]"
proof -
  have p: "JSON_parse ex_overflow_file = JsObject [(''sessionTimeout'', JsNumber PosInfinity)]"
    by (simp add: ex_overflow_file_def object_of_def obj_set_def to_number_def double_overflow_def)
  have k: "key_in_DEFAULT_SETTINGS ''sessionTimeout''"
    by (rule exported_key_recognized) (simp add: exported_keys_def)
  show ?thesis
    by (simp add: ex_overflow_settings_def import_object [OF p] import_keys_def obj_keys_def
        obj_get_def k zustand_set_def obj_set_def DEFAULT_SETTINGS_def)
qed

lemma ex_overflow_applicable: "applicable document ex_overflow_settings"
  by (simp add: applicable_def has_key_def ex_overflow_settings_eq obj_get_def)

text \<open>
  Claim C9 as stated fails on a state that \<^verbatim>\<open>importSettings\<close> itself produces.
  Importing a file whose session timeout is the literal \<^verbatim>\<open>2e308\<close> into the defaults
  returns true and stores Infinity; exporting that state writes \<^verbatim>\<open>null\<close> for it, and
  importing the export returns true and leaves the field \<^verbatim>\<open>null\<close>, not the value at
  export time.
\<close>

theorem settings_roundtrip_counterexample:
  "fst (importSettings True (Some ex_overflow_file) DEFAULT_SETTINGS) \<and>
   obj_get ex_overflow_settings ''sessionTimeout'' = Some (JsNumber PosInfinity) \<and>
   fst (importSettings True (Some (exportSettings ex_overflow_settings)) ex_overflow_settings) \<and>
   obj_get (snd (importSettings True (Some (exportSettings ex_overflow_settings)) ex_overflow_settings))
     ''sessionTimeout'' = Some JsNull"
proof -
  have p: "JSON_parse ex_overflow_file = JsObject [(''sessionTimeout'', JsNumber PosInfinity)]"
    by (simp add: ex_overflow_file_def object_of_def obj_set_def to_number_def double_overflow_def)
  have "snd (importSettings True (Some ex_overflow_file) DEFAULT_SETTINGS) =
          import_keys [(''sessionTimeout'', JsNumber PosInfinity)] DEFAULT_SETTINGS"
    by (simp add: import_object [OF p])
  then have s: "import_keys [(''sessionTimeout'', JsNumber PosInfinity)] DEFAULT_SETTINGS =
                  ex_overflow_settings"
    by (simp add: ex_overflow_settings_def)
  have 1: "fst (importSettings True (Some ex_overflow_file) DEFAULT_SETTINGS)"
    by (simp add: import_object [OF p] s ex_overflow_applicable)
  have 2: "obj_get ex_overflow_settings ''sessionTimeout'' = Some (JsNumber PosInfinity)"
    by (simp add: ex_overflow_settings_eq obj_get_def)
  have e: "JSON_parse (exportSettings ex_overflow_settings) =
      JsObject
        [(''fontSize'', JsString ''medium''),
         (''listDensity'', JsString ''regular''),
         (''animationsEnabled'', JsBool True),
         (''dateFormat'', JsString ''regional''),
         (''timeFormat'', JsString ''24h''),
         (''firstDayOfWeek'', JsNumber (Finite 1)),
         (''markAsReadDelay'', JsNumber (Finite 0)),
         (''deleteAction'', JsString ''trash''),
         (''showPreview'', JsBool True),
         (''emailsPerPage'', JsNumber (Finite 50)),
         (''externalContentPolicy'', JsString ''ask''),
         (''autoSaveDraftInterval'', JsNumber (Finite 60000)),
         (''sendConfirmation'', JsBool False),
         (''defaultReplyMode'', JsString ''reply''),
         (''sessionTimeout'', JsNull),
         (''debugMode'', JsBool False)]"
    by (simp add: exportSettings_def ex_overflow_settings_eq exported_keys_def obj_get_def
        List.map_filter_simps object_of_def obj_set_def to_number_def double_overflow_def)
  have k: "key_in_DEFAULT_SETTINGS ''sessionTimeout''"
    by (rule exported_key_recognized) (simp add: exported_keys_def)
  have kf: "key_in_DEFAULT_SETTINGS ''fontSize''"
    by (rule exported_key_recognized) (simp add: exported_keys_def)
  have kl: "key_in_DEFAULT_SETTINGS ''listDensity''"
    by (rule exported_key_recognized) (simp add: exported_keys_def)
  have gf: "obj_get (snd (importSettings True (Some (exportSettings ex_overflow_settings))
               ex_overflow_settings)) ''fontSize'' = Some (JsString ''medium'')"
    by (simp add: import_object [OF e] import_keys_get kf) (simp add: obj_get_def)
  have gl: "obj_get (snd (importSettings True (Some (exportSettings ex_overflow_settings))
               ex_overflow_settings)) ''listDensity'' = Some (JsString ''regular'')"
    by (simp add: import_object [OF e] import_keys_get kl) (simp add: obj_get_def)
  have "applicable True (snd (importSettings True (Some (exportSettings ex_overflow_settings))
               ex_overflow_settings))"
    by (simp add: applicable_def has_key_def gf gl)
  then have 3: "fst (importSettings True (Some (exportSettings ex_overflow_settings)) ex_overflow_settings)"
    by (simp add: import_object [OF e])
  have 4: "obj_get (snd (importSettings True (Some (exportSettings ex_overflow_settings))
               ex_overflow_settings)) ''sessionTimeout'' = Some JsNull"
    by (simp add: import_object [OF e] import_keys_get k) (simp add: obj_get_def)
  show ?thesis
    by (intro conjI) (fact 1 2 3 4)+
qed

text \<open>
  Claim C9, amended.  For a settings state in which each of the sixteen recognized
  fields holds a value that JSON represents (no NaN and no infinity in it),
  \<^verbatim>\<open>importSettings(exportSettings())\<close> leaves the state as it is, every field equal to
  its value at export time, and importing the export into any other state sets each
  of the sixteen fields to its value at export time.  Importing any JSON object sets
  each recognized field the object has to the value \<^verbatim>\<open>JSON.parse\<close> gives for it, and
  leaves the other recognized fields unchanged.  In all these cases \<^verbatim>\<open>importSettings\<close>
  returns true, unless there is a document and the font size or the list density of
  the state it has stored has no property key (it is an object with a \<^verbatim>\<open>toString\<close>
  member, or an array that holds one): then it returns false, the fields being
  stored all the same.
\<close>

theorem settings_roundtrip:
  "(representable_settings state \<longrightarrow>
      importSettings document (Some (exportSettings state)) state =
        (applicable document state, state) \<and>
      (\<forall>k \<in> set exported_keys.
         obj_get (snd (importSettings document (Some (exportSettings state)) other)) k =
           obj_get state k)) \<and>
   (\<forall>props. JSON_parse j = JsObject props \<longrightarrow>
      fst (importSettings document (Some j) state) =
        applicable document (snd (importSettings document (Some j) state)) \<and>
      (\<forall>k \<in> set exported_keys.
         obj_get (snd (importSettings document (Some j) state)) k =
           (case obj_get props k of Some v \<Rightarrow> Some v | None \<Rightarrow> obj_get state k)))"
proof (intro conjI allI impI ballI)
  assume "representable_settings state"
  then show "importSettings document (Some (exportSettings state)) state =
               (applicable document state, state)"
    by (rule roundtrip)
next
  fix k
  assume "representable_settings state" "k \<in> set exported_keys"
  then show "obj_get (snd (importSettings document (Some (exportSettings state)) other)) k =
               obj_get state k"
    by (rule restore)
next
  fix props assume "JSON_parse j = JsObject props"
  then show "fst (importSettings document (Some j) state) =
               applicable document (snd (importSettings document (Some j) state))"
    by (simp add: import_object)
next
  fix props k
  assume p: "JSON_parse j = JsObject props" and k: "k \<in> set exported_keys"
  from exported_key_recognized [OF k] show
    "obj_get (snd (importSettings document (Some j) state)) k =
       (case obj_get props k of Some v \<Rightarrow> Some v | None \<Rightarrow> obj_get state k)"
    by (simp add: import_object [OF p] import_keys_get split: option.splits)
qed

theorem settings_roundtrip_witness:
  "representable_settings DEFAULT_SETTINGS \<and>
   applicable True DEFAULT_SETTINGS \<and>
   importSettings True (Some (exportSettings DEFAULT_SETTINGS)) DEFAULT_SETTINGS =
     (True, DEFAULT_SETTINGS) \<and>
   obj_get (snd (importSettings True (Some (exportSettings DEFAULT_SETTINGS)) ex_overflow_settings))
     ''sessionTimeout'' = Some (JsNumber (Finite 0)) \<and>
   JSON_parse ex_partial_file =
     JsObject [(''emailsPerPage'', JsNumber (Finite 25)), (''deleteAction'', JsString ''permanent'')] \<and>
   fst (importSettings True (Some ex_partial_file) DEFAULT_SETTINGS) \<and>
   obj_get (snd (importSettings True (Some ex_partial_file) DEFAULT_SETTINGS)) ''emailsPerPage'' =
     Some (JsNumber (Finite 25)) \<and>
   obj_get (snd (importSettings True (Some ex_partial_file) DEFAULT_SETTINGS)) ''deleteAction'' =
     Some (JsString ''permanent'') \<and>
   obj_get (snd (importSettings True (Some ex_partial_file) DEFAULT_SETTINGS)) ''fontSize'' =
     Some (JsString ''medium'') \<and>
   JSON_parse ex_toString_file =
     JsObject [(''fontSize'', JsObject [(''toString'', JsNumber (Finite 1))])] \<and>
   obj_get (snd (importSettings True (Some ex_toString_file) DEFAULT_SETTINGS)) ''fontSize'' =
     Some (JsObject [(''toString'', JsNumber (Finite 1))]) \<and>
   \<not> fst (importSettings True (Some ex_toString_file) DEFAULT_SETTINGS) \<and>
   fst (importSettings False (Some ex_toString_file) DEFAULT_SETTINGS)"
proof -
  have r: "representable_settings DEFAULT_SETTINGS"
    by (simp add: representable_settings_def exported_keys_def DEFAULT_SETTINGS_def obj_get_def
        double_overflow_def)
  have ap: "applicable True DEFAULT_SETTINGS"
    by (simp add: applicable_def has_key_def DEFAULT_SETTINGS_def obj_get_def)
  have p: "JSON_parse ex_partial_file =
     JsObject [(''emailsPerPage'', JsNumber (Finite 25)), (''deleteAction'', JsString ''permanent'')]"
    by (simp add: ex_partial_file_def object_of_def obj_set_def to_number_def double_overflow_def)
  have q: "JSON_parse ex_toString_file =
     JsObject [(''fontSize'', JsObject [(''toString'', JsNumber (Finite 1))])]"
    by (simp add: ex_toString_file_def object_of_def obj_set_def to_number_def double_overflow_def)
  have ks: "''emailsPerPage'' \<in> set exported_keys" "''deleteAction'' \<in> set exported_keys"
    "''fontSize'' \<in> set exported_keys" "''listDensity'' \<in> set exported_keys"
    "''sessionTimeout'' \<in> set exported_keys"
    by (simp_all add: exported_keys_def)
  note t = settings_roundtrip [where state = DEFAULT_SETTINGS]
  note t1 = t [where document = True and other = ex_overflow_settings and j = ex_partial_file,
      THEN conjunct1, rule_format, OF r]
  have 1: "importSettings True (Some (exportSettings DEFAULT_SETTINGS)) DEFAULT_SETTINGS =
     (True, DEFAULT_SETTINGS)"
    using t1 [THEN conjunct1] by (simp add: ap)
  have restored: "obj_get (snd (importSettings True (Some (exportSettings DEFAULT_SETTINGS))
               ex_overflow_settings)) ''sessionTimeout'' = Some (JsNumber (Finite 0))"
    using t1 [THEN conjunct2, rule_format, OF ks(5)]
    by (simp add: DEFAULT_SETTINGS_def obj_get_def)
  note t2 = t [where document = True and j = ex_partial_file,
      THEN conjunct2, rule_format, OF p]
  have g2: "\<And>k. k \<in> set exported_keys \<Longrightarrow>
      obj_get (snd (importSettings True (Some ex_partial_file) DEFAULT_SETTINGS)) k =
        (case obj_get [(''emailsPerPage'', JsNumber (Finite 25)),
                       (''deleteAction'', JsString ''permanent'')] k of
           Some v \<Rightarrow> Some v | None \<Rightarrow> obj_get DEFAULT_SETTINGS k)"
    using t2 [THEN conjunct2] by blast
  have 4: "obj_get (snd (importSettings True (Some ex_partial_file) DEFAULT_SETTINGS)) ''emailsPerPage'' =
     Some (JsNumber (Finite 25))"
    "obj_get (snd (importSettings True (Some ex_partial_file) DEFAULT_SETTINGS)) ''deleteAction'' =
     Some (JsString ''permanent'')"
    "obj_get (snd (importSettings True (Some ex_partial_file) DEFAULT_SETTINGS)) ''fontSize'' =
     Some (JsString ''medium'')"
    "obj_get (snd (importSettings True (Some ex_partial_file) DEFAULT_SETTINGS)) ''listDensity'' =
     Some (JsString ''regular'')"
    using g2 [OF ks(1)] g2 [OF ks(2)] g2 [OF ks(3)] g2 [OF ks(4)]
    by (simp_all add: obj_get_def DEFAULT_SETTINGS_def)
  have 2: "fst (importSettings True (Some ex_partial_file) DEFAULT_SETTINGS)"
    using t2 [THEN conjunct1] 4 by (simp add: applicable_def has_key_def)
  note t3 = t [where j = ex_toString_file, THEN conjunct2, rule_format, OF q]
  have g3: "\<And>document k. k \<in> set exported_keys \<Longrightarrow>
      obj_get (snd (importSettings document (Some ex_toString_file) DEFAULT_SETTINGS)) k =
        (case obj_get [(''fontSize'', JsObject [(''toString'', JsNumber (Finite 1))])] k of
           Some v \<Rightarrow> Some v | None \<Rightarrow> obj_get DEFAULT_SETTINGS k)"
    using t3 [THEN conjunct2] by blast
  have 5: "\<And>document. obj_get (snd (importSettings document (Some ex_toString_file) DEFAULT_SETTINGS))
             ''fontSize'' = Some (JsObject [(''toString'', JsNumber (Finite 1))])"
    using g3 [OF ks(3)] by (simp add: obj_get_def)
  have 6: "\<not> fst (importSettings True (Some ex_toString_file) DEFAULT_SETTINGS)"
    using t3 [where document = True, THEN conjunct1] 5 [of True]
    by (simp add: applicable_def has_key_def obj_has_def)
  have 7: "fst (importSettings False (Some ex_toString_file) DEFAULT_SETTINGS)"
    using t3 [where document = False, THEN conjunct1]
    by (simp add: applicable_def)
  show ?thesis
    by (intro conjI) (fact r ap 1 restored p 2 4(1) 4(2) 4(3) q 5 6 7)+
qed

end
